theory Spec2Isabelle
  imports Complex_Main "HOL-Library.AList"
begin

section \<open>Python values, errors and containers\<close>

text \<open>
  The two notebooks (\<^verbatim>\<open>solution.py\<close>, the tracking pipeline, and
  \<^verbatim>\<open>solution3_detection.py\<close>, the detection pipeline) are modelled as pure functions
  that return either the exception the Python raises or the objects the Python leaves behind.
  Python floats are idealised as reals, Python ints are unbounded integers.
\<close>

datatype error = KeyError | IndexError | ValueError | AssertionError | OverflowError | InvalidRef

text \<open>The first five are the Python exceptions the notebooks can raise. \<open>InvalidRef\<close> is not
  a Python exception: it is the answer of the model to a reference that names no object of the
  store (see the section on relabelling), which Python cannot build.\<close>

text \<open>\<^verbatim>\<open>d[k]\<close> on a dict (kept as an association list in insertion order) and
  \<^verbatim>\<open>data["attr"]\<close> on an attribute that may be absent: both raise \<^verbatim>\<open>KeyError\<close>.\<close>

definition getitem :: "('k \<times> 'v) list \<Rightarrow> 'k \<Rightarrow> error + 'v" where
  "getitem d k = (case map_of d k of None \<Rightarrow> Inl KeyError | Some v \<Rightarrow> Inr v)"

definition attr :: "'a option \<Rightarrow> error + 'a" where
  "attr v = (case v of None \<Rightarrow> Inl KeyError | Some a \<Rightarrow> Inr a)"

text \<open>Sequencing of statements that may raise: the first exception ends the run.\<close>

definition bind :: "error + 'a \<Rightarrow> ('a \<Rightarrow> error + 'b) \<Rightarrow> error + 'b" where
  "bind m f = (case m of Inl e \<Rightarrow> Inl e | Inr v \<Rightarrow> f v)"

text \<open>Indexing a sequence, or one axis of a numpy array, with a Python int. The position
  the index names: an index from 0 up to the length names itself, a negative index down to
  minus the length counts from the end, any other index raises \<^verbatim>\<open>IndexError\<close>.\<close>

definition np_position :: "'a list \<Rightarrow> int \<Rightarrow> error + nat" where
  "np_position xs i =
     (if 0 \<le> i \<and> i < int (length xs) then Inr (nat i)
      else if i < 0 \<and> - int (length xs) \<le> i then Inr (nat (int (length xs) + i))
      else Inl IndexError)"

definition np_index :: "'a list \<Rightarrow> int \<Rightarrow> error + 'a" where
  "np_index xs i = bind (np_position xs i) (\<lambda>k. Inr (xs ! k))"

text \<open>A Python \<^verbatim>\<open>for\<close> loop over a sequence fixed before the loop starts, with the
  objects the body mutates as the state.\<close>

fun for_loop :: "'a list \<Rightarrow> ('a \<Rightarrow> 's \<Rightarrow> error + 's) \<Rightarrow> 's \<Rightarrow> error + 's" where
  "for_loop [] body s = Inr s"
| "for_loop (x # xs) body s = bind (body x s) (for_loop xs body)"

section \<open>Detection pipeline: loading the dataset\<close>

text \<open>
  \<^verbatim>\<open>
  x = np.stack([imread(str(p)) for p in sorted((base_path/ "images").glob("*.tif"))])
  y = np.stack([imread(str(p)) for p in sorted((base_path/ "gt_tracking").glob("*.tif"))])
  assert len(x) == len(x)
  \<close>
  The inputs of the model are the two lists of frames as \<^verbatim>\<open>imread\<close> returned them, each
  frame a two-dimensional array (a list of rows). \<^verbatim>\<open>np.stack\<close> raises \<^verbatim>\<open>ValueError\<close> on
  an empty list and on frames of different shapes, and otherwise returns the frames stacked
  along a new first axis, so that \<^verbatim>\<open>len\<close> of the result is the number of frames.
\<close>

type_synonym 'a frame = "'a list list"

definition np_stack :: "'a frame list \<Rightarrow> error + 'a frame list" where
  "np_stack arrays =
     (case arrays of
        [] \<Rightarrow> Inl ValueError
      | a # rest \<Rightarrow>
          if list_all (\<lambda>b. map length b = map length a) rest then Inr arrays
          else Inl ValueError)"

definition load_dataset ::
  "'a frame list \<Rightarrow> 'b frame list \<Rightarrow> error + ('a frame list \<times> 'b frame list)" where
  "load_dataset images gt_tracking =
     bind (np_stack images) (\<lambda>x.
     bind (np_stack gt_tracking) (\<lambda>y.
     if length x = length x then Inr (x, y) else Inl AssertionError))"

section \<open>Graphs of detections\<close>

text \<open>
  A \<^verbatim>\<open>networkx.DiGraph\<close> keeps a dict of nodes and a dict of edges, each with a dict of
  attributes. The attributes the notebook reads and writes are fixed, so the attribute dict is
  a record of optional fields (\<open>None\<close>: the key is absent). Node and edge dicts are
  association lists in insertion order, read with \<^const>\<open>map_of\<close> and written with
  \<^const>\<open>AList.update\<close>.
\<close>

record node_attrs =
  attr_t :: "int option"
  attr_x :: "real option"
  attr_y :: "real option"
  attr_ignore_appear :: "bool option"
  attr_gt :: "bool option"
  attr_tracklet_id :: "int option"
  attr_label :: "int option"

record edge_attrs =
  attr_drift_dist :: "real option"
  attr_edge_gt :: "bool option"

record nx_graph =
  nodes :: "(int \<times> node_attrs) list"
  edges :: "((int \<times> int) \<times> edge_attrs) list"

definition no_node_attrs :: node_attrs where
  "no_node_attrs = \<lparr>attr_t = None, attr_x = None, attr_y = None, attr_ignore_appear = None,
     attr_gt = None, attr_tracklet_id = None, attr_label = None\<rparr>"

definition no_edge_attrs :: edge_attrs where
  "no_edge_attrs = \<lparr>attr_drift_dist = None, attr_edge_gt = None\<rparr>"

definition DiGraph :: nx_graph where
  "DiGraph = \<lparr>nodes = [], edges = []\<rparr>"

text \<open>\<^verbatim>\<open>G.add_node(n, **attrs)\<close>: a new node gets the attributes, an existing node has them
  updated and keeps its other attributes. The keyword arguments are the record update
  \<open>upd\<close>.\<close>

definition add_node :: "nx_graph \<Rightarrow> int \<Rightarrow> (node_attrs \<Rightarrow> node_attrs) \<Rightarrow> nx_graph" where
  "add_node G n upd =
     G\<lparr>nodes := AList.update n
        (upd (case map_of (nodes G) n of None \<Rightarrow> no_node_attrs | Some a \<Rightarrow> a)) (nodes G)\<rparr>"

text \<open>\<^verbatim>\<open>G.add_edge(u, v)\<close>: both end points become nodes (without attributes) when they
  are not nodes yet; an edge that exists already is left as it is.\<close>

definition add_edge :: "nx_graph \<Rightarrow> int \<Rightarrow> int \<Rightarrow> nx_graph" where
  "add_edge G u v =
     (let G1 = (if map_of (nodes G) u = None then add_node G u id else G);
          G2 = (if map_of (nodes G1) v = None then add_node G1 v id else G1)
      in if map_of (edges G2) (u, v) = None
         then G2\<lparr>edges := AList.update (u, v) no_edge_attrs (edges G2)\<rparr>
         else G2)"

text \<open>\<^verbatim>\<open>G.nodes[n][key] = value\<close> and \<^verbatim>\<open>G.edges[e][key] = value\<close>.\<close>

definition set_node_attr ::
  "nx_graph \<Rightarrow> int \<Rightarrow> (node_attrs \<Rightarrow> node_attrs) \<Rightarrow> error + nx_graph" where
  "set_node_attr G n upd =
     bind (getitem (nodes G) n) (\<lambda>data. Inr (G\<lparr>nodes := AList.update n (upd data) (nodes G)\<rparr>))"

definition set_edge_attr ::
  "nx_graph \<Rightarrow> int \<times> int \<Rightarrow> (edge_attrs \<Rightarrow> edge_attrs) \<Rightarrow> error + nx_graph" where
  "set_edge_attr G e upd =
     bind (getitem (edges G) e) (\<lambda>data. Inr (G\<lparr>edges := AList.update e (upd data) (edges G)\<rparr>))"

text \<open>\<^verbatim>\<open>G.successors(n)\<close>, \<^verbatim>\<open>G.in_degree(n)\<close> and \<^verbatim>\<open>G.out_degree(n)\<close>.\<close>

definition successors :: "nx_graph \<Rightarrow> int \<Rightarrow> int list" where
  "successors G n = map snd (filter (\<lambda>e. fst e = n) (map fst (edges G)))"


definition out_degree :: "nx_graph \<Rightarrow> int \<Rightarrow> nat" where
  "out_degree G n = length (filter (\<lambda>e. fst e = n) (map fst (edges G)))"

text \<open>What a reader of the graph sees: the position of a node and the attributes of an edge.\<close>

definition position :: "nx_graph \<Rightarrow> int \<Rightarrow> (real \<times> real) option" where
  "position G n =
     (case map_of (nodes G) n of
        None \<Rightarrow> None
      | Some a \<Rightarrow> (case attr_x a of None \<Rightarrow> None
                  | Some x \<Rightarrow> (case attr_y a of None \<Rightarrow> None | Some y \<Rightarrow> Some (x, y))))"

definition frame_of :: "nx_graph \<Rightarrow> int \<Rightarrow> int option" where
  "frame_of G n = (case map_of (nodes G) n of None \<Rightarrow> None | Some a \<Rightarrow> attr_t a)"

definition drift_dist_of :: "nx_graph \<Rightarrow> int \<times> int \<Rightarrow> real option" where
  "drift_dist_of G e = (case map_of (edges G) e of None \<Rightarrow> None | Some a \<Rightarrow> attr_drift_dist a)"

section \<open>Feature augmenters\<close>

subsection \<open>Drift distance\<close>

text \<open>
  \<^verbatim>\<open>
  def add_drift_dist_attr(cand_graph, drift):
      for edge in cand_graph.edges():
          source, target = edge
          source_data = cand_graph.nodes[source]
          source_pos = np.array([source_data["x"], source_data["y"]])
          target_data = cand_graph.nodes[target]
          target_pos = np.array([target_data["x"], target_data["y"]])
          expected_target_pos = source_pos + drift
          drift_dist = np.linalg.norm(expected_target_pos - target_pos)
          cand_graph.edges[edge]["drift_dist"] = drift_dist
  \<close>
  A position and the drift are arrays of two numbers, here pairs.
\<close>

definition linalg_norm :: "real \<times> real \<Rightarrow> real" where
  "linalg_norm v = sqrt ((fst v)\<^sup>2 + (snd v)\<^sup>2)"

definition drift_body :: "real \<times> real \<Rightarrow> int \<times> int \<Rightarrow> nx_graph \<Rightarrow> error + nx_graph" where
  "drift_body drift edge cand_graph =
     (let source = fst edge; target = snd edge in
      bind (getitem (nodes cand_graph) source) (\<lambda>source_data.
      bind (attr (attr_x source_data)) (\<lambda>sx.
      bind (attr (attr_y source_data)) (\<lambda>sy.
      bind (getitem (nodes cand_graph) target) (\<lambda>target_data.
      bind (attr (attr_x target_data)) (\<lambda>tx.
      bind (attr (attr_y target_data)) (\<lambda>ty.
      let expected_target_pos = (sx + fst drift, sy + snd drift);
          drift_dist = linalg_norm (fst expected_target_pos - tx, snd expected_target_pos - ty)
      in set_edge_attr cand_graph edge (\<lambda>a. a\<lparr>attr_drift_dist := Some drift_dist\<rparr>))))))))"

definition add_drift_dist_attr :: "nx_graph \<Rightarrow> real \<times> real \<Rightarrow> error + nx_graph" where
  "add_drift_dist_attr cand_graph drift =
     for_loop (map fst (edges cand_graph)) (drift_body drift) cand_graph"

text \<open>The fixtures of the drift distance: a source at \<open>(0, 0)\<close>, the drift \<open>(-10, 0)\<close>, and the
  targets \<open>(-10, 0)\<close> (distance 0) and \<open>(0, 0)\<close> (distance 10).\<close>

definition drift_fixture :: nx_graph where
  "drift_fixture =
     \<lparr>nodes = [(1, no_node_attrs\<lparr>attr_t := Some 0, attr_x := Some 0, attr_y := Some 0\<rparr>),
               (2, no_node_attrs\<lparr>attr_t := Some 1, attr_x := Some (-10), attr_y := Some 0\<rparr>),
               (3, no_node_attrs\<lparr>attr_t := Some 1, attr_x := Some 0, attr_y := Some 0\<rparr>)],
      edges = [((1, 2), no_edge_attrs), ((1, 3), no_edge_attrs)]\<rparr>"

subsection \<open>Appearance at the boundary\<close>

text \<open>
  \<^verbatim>\<open>
  def add_appear_ignore_attr(cand_graph):
      for node in cand_graph.nodes():
          time = cand_graph.nodes[node]["t"]
          pos_x = cand_graph.nodes[node]["x"]
          if time == 0 or pos_x >= 710:
              cand_graph.nodes[node]["ignore_appear"] = True
  \<close>
\<close>

definition appear_body :: "int \<Rightarrow> nx_graph \<Rightarrow> error + nx_graph" where
  "appear_body node cand_graph =
     bind (getitem (nodes cand_graph) node) (\<lambda>data_t.
     bind (attr (attr_t data_t)) (\<lambda>time.
     bind (getitem (nodes cand_graph) node) (\<lambda>data_x.
     bind (attr (attr_x data_x)) (\<lambda>pos_x.
     if time = 0 \<or> pos_x \<ge> 710
     then set_node_attr cand_graph node (\<lambda>a. a\<lparr>attr_ignore_appear := Some True\<rparr>)
     else Inr cand_graph))))"

definition add_appear_ignore_attr :: "nx_graph \<Rightarrow> error + nx_graph" where
  "add_appear_ignore_attr cand_graph =
     for_loop (map fst (nodes cand_graph)) appear_body cand_graph"

text \<open>The nodes the claim speaks of: in the first frame, or at or beyond the boundary 710.\<close>

definition at_boundary :: "node_attrs \<Rightarrow> bool" where
  "at_boundary a \<longleftrightarrow>
     attr_t a = Some 0 \<or> (case attr_x a of None \<Rightarrow> False | Some pos_x \<Rightarrow> 710 \<le> pos_x)"

definition tagged :: "node_attrs \<Rightarrow> node_attrs" where
  "tagged a = (if at_boundary a then a\<lparr>attr_ignore_appear := Some True\<rparr> else a)"

definition appear_fixture :: nx_graph where
  "appear_fixture =
     \<lparr>nodes = [(1, no_node_attrs\<lparr>attr_t := Some 0, attr_x := Some 5, attr_y := Some 3\<rparr>),
               (2, no_node_attrs\<lparr>attr_t := Some 4, attr_x := Some 710, attr_y := Some 1\<rparr>),
               (3, no_node_attrs\<lparr>attr_t := Some 4, attr_x := Some 709, attr_y := Some 2\<rparr>)],
      edges = [((1, 2), no_edge_attrs)]\<rparr>"

section \<open>Candidate edges\<close>

text \<open>A list comprehension whose element expression may raise.\<close>

fun map_result :: "('a \<Rightarrow> error + 'b) \<Rightarrow> 'a list \<Rightarrow> error + 'b list" where
  "map_result f [] = Inr []"
| "map_result f (x # xs) = bind (f x) (\<lambda>y. bind (map_result f xs) (\<lambda>ys. Inr (y # ys)))"

text \<open>
  \<^verbatim>\<open>
  def _compute_node_frame_dict(cand_graph):
      node_frame_dict = {}
      for node, data in cand_graph.nodes(data=True):
          t = data["t"]
          if t not in node_frame_dict:
              node_frame_dict[t] = []
          node_frame_dict[t].append(node)
      return node_frame_dict
  \<close>
\<close>

definition frame_dict_body ::
  "int \<times> node_attrs \<Rightarrow> (int \<times> int list) list \<Rightarrow> error + (int \<times> int list) list" where
  "frame_dict_body item node_frame_dict =
     (let node = fst item; data = snd item in
      bind (attr (attr_t data)) (\<lambda>t.
      let d1 = (if map_of node_frame_dict t = None then AList.update t [] node_frame_dict
                else node_frame_dict)
      in bind (getitem d1 t) (\<lambda>l. Inr (AList.update t (l @ [node]) d1))))"

definition compute_node_frame_dict :: "nx_graph \<Rightarrow> error + (int \<times> int list) list" where
  "compute_node_frame_dict cand_graph = for_loop (nodes cand_graph) frame_dict_body []"

text \<open>
  \<^verbatim>\<open>
  def create_kdtree(cand_graph, node_ids):
      positions = [[cand_graph.nodes[node]["x"], cand_graph.nodes[node]["y"]] for node in node_ids]
      return scipy.spatial.KDTree(positions)
  \<close>
  The tree is kept as the list of its points, in the order of \<^verbatim>\<open>node_ids\<close>.
  \<^verbatim>\<open>self.query_ball_tree(other, r)\<close> returns, for every point of \<^verbatim>\<open>self\<close>, the indices of
  the points of \<^verbatim>\<open>other\<close> at Euclidean distance at most \<^verbatim>\<open>r\<close>. SciPy compares the squared
  distance with the square of \<^verbatim>\<open>r\<close>, so that a negative \<^verbatim>\<open>r\<close> counts as its absolute value.
\<close>

definition create_kdtree :: "nx_graph \<Rightarrow> int list \<Rightarrow> error + (real \<times> real) list" where
  "create_kdtree cand_graph node_ids =
     map_result (\<lambda>node.
        bind (getitem (nodes cand_graph) node) (\<lambda>data_x.
        bind (attr (attr_x data_x)) (\<lambda>x.
        bind (getitem (nodes cand_graph) node) (\<lambda>data_y.
        bind (attr (attr_y data_y)) (\<lambda>y. Inr (x, y)))))) node_ids"

definition distance :: "real \<times> real \<Rightarrow> real \<times> real \<Rightarrow> real" where
  "distance p q = linalg_norm (fst p - fst q, snd p - snd q)"

definition query_ball_tree ::
  "(real \<times> real) list \<Rightarrow> (real \<times> real) list \<Rightarrow> real \<Rightarrow> nat list list" where
  "query_ball_tree self other r =
     map (\<lambda>p. filter (\<lambda>j. (distance p (other ! j))\<^sup>2 \<le> r\<^sup>2) [0..<length other]) self"

text \<open>
  \<^verbatim>\<open>
  def add_cand_edges(cand_graph, max_edge_distance):
      node_frame_dict = _compute_node_frame_dict(cand_graph)
      frames = sorted(node_frame_dict.keys())
      prev_node_ids = node_frame_dict[frames[0]]
      prev_kdtree = create_kdtree(cand_graph, prev_node_ids)
      for frame in tqdm(frames):
          if frame + 1 not in node_frame_dict:
              continue
          next_node_ids = node_frame_dict[frame + 1]
          next_kdtree = create_kdtree(cand_graph, next_node_ids)
          matched_indices = prev_kdtree.query_ball_tree(next_kdtree, max_edge_distance)
          for prev_node_id, next_node_indices in zip(prev_node_ids, matched_indices):
              for next_node_index in next_node_indices:
                  next_node_id = next_node_ids[next_node_index]
                  cand_graph.add_edge(prev_node_id, next_node_id)
          prev_node_ids = next_node_ids
          prev_kdtree = next_kdtree
  \<close>
  The state of the outer loop is the graph with \<^verbatim>\<open>prev_node_ids\<close> and \<^verbatim>\<open>prev_kdtree\<close>;
  \<^verbatim>\<open>continue\<close> leaves all three as they are.
\<close>

definition link_body :: "int list \<Rightarrow> int \<times> nat list \<Rightarrow> nx_graph \<Rightarrow> error + nx_graph" where
  "link_body next_node_ids pair cand_graph =
     (let prev_node_id = fst pair; next_node_indices = snd pair in
      for_loop next_node_indices
        (\<lambda>next_node_index G.
           bind (np_index next_node_ids (int next_node_index)) (\<lambda>next_node_id.
           Inr (add_edge G prev_node_id next_node_id)))
        cand_graph)"

definition cand_edges_body ::
  "(int \<times> int list) list \<Rightarrow> real \<Rightarrow> int \<Rightarrow>
   nx_graph \<times> int list \<times> (real \<times> real) list \<Rightarrow>
   error + (nx_graph \<times> int list \<times> (real \<times> real) list)" where
  "cand_edges_body node_frame_dict max_edge_distance frame state =
     (let cand_graph = fst state; prev_node_ids = fst (snd state); prev_kdtree = snd (snd state) in
      if map_of node_frame_dict (frame + 1) = None then Inr state
      else
        bind (getitem node_frame_dict (frame + 1)) (\<lambda>next_node_ids.
        bind (create_kdtree cand_graph next_node_ids) (\<lambda>next_kdtree.
        let matched_indices = query_ball_tree prev_kdtree next_kdtree max_edge_distance in
        bind (for_loop (zip prev_node_ids matched_indices) (link_body next_node_ids) cand_graph)
          (\<lambda>G. Inr (G, next_node_ids, next_kdtree)))))"

definition add_cand_edges :: "nx_graph \<Rightarrow> real \<Rightarrow> error + nx_graph" where
  "add_cand_edges cand_graph max_edge_distance =
     bind (compute_node_frame_dict cand_graph) (\<lambda>node_frame_dict.
     let frames = sort (map fst node_frame_dict) in
     bind (np_index frames 0) (\<lambda>first_frame.
     bind (getitem node_frame_dict first_frame) (\<lambda>prev_node_ids.
     bind (create_kdtree cand_graph prev_node_ids) (\<lambda>prev_kdtree.
     bind (for_loop frames (cand_edges_body node_frame_dict max_edge_distance)
             (cand_graph, prev_node_ids, prev_kdtree))
       (\<lambda>state. Inr (fst state))))))"

text \<open>A nodes-only graph with detections in the frames 0, 2 and 3 (no detection in frame 1),
  all at the same position.\<close>

definition gap_fixture :: nx_graph where
  "gap_fixture =
     \<lparr>nodes = [(1, no_node_attrs\<lparr>attr_t := Some 0, attr_x := Some 0, attr_y := Some 0\<rparr>),
               (2, no_node_attrs\<lparr>attr_t := Some 2, attr_x := Some 0, attr_y := Some 0\<rparr>),
               (3, no_node_attrs\<lparr>attr_t := Some 3, attr_x := Some 0, attr_y := Some 0\<rparr>)],
      edges = []\<rparr>"

section \<open>Ground-truth annotation of a candidate graph\<close>

text \<open>\<^verbatim>\<open>int(x)\<close> of a float: the fractional part is dropped (truncation toward zero).\<close>

definition py_int :: "real \<Rightarrow> int" where
  "py_int x = (if 0 \<le> x then \<lfloor>x\<rfloor> else \<lceil>x\<rceil>)"

text \<open>
  \<^verbatim>\<open>
  def get_cand_id(gt_node, gt_track, cand_segmentation):
      data = gt_track.nodes[gt_node]
      return cand_segmentation[data["t"], int(data["x"])][int(data["y"])]
  \<close>
  The segmentation is an array of labels with the axes (time, first spatial axis, second
  spatial axis).
\<close>

type_synonym volume = "int list list list"

definition get_cand_id :: "int \<Rightarrow> nx_graph \<Rightarrow> volume \<Rightarrow> error + int" where
  "get_cand_id gt_node gt_track cand_segmentation =
     bind (getitem (nodes gt_track) gt_node) (\<lambda>data.
     bind (attr (attr_t data)) (\<lambda>t.
     bind (attr (attr_x data)) (\<lambda>x.
     bind (np_index cand_segmentation t) (\<lambda>frame.
     bind (np_index frame (py_int x)) (\<lambda>row.
     bind (attr (attr_y data)) (\<lambda>y.
     np_index row (py_int y)))))))"

text \<open>
  \<^verbatim>\<open>
  def add_gt_annotations(gt_tracks, cand_graph, segmentation):
      for gt_node in gt_tracks.nodes():
          cand_id = get_cand_id(gt_node, gt_tracks, segmentation)
          if cand_id != 0:
              if cand_id in cand_graph:
                  cand_graph.nodes[cand_id]["gt"] = True
                  gt_succs = gt_tracks.successors(gt_node)
                  gt_succ_matches = [get_cand_id(gt_succ, gt_tracks, segmentation) for gt_succ in gt_succs]
                  cand_succs = cand_graph.successors(cand_id)
                  for succ in cand_succs:
                      if succ in gt_succ_matches:
                          cand_graph.edges[(cand_id, succ)]["gt"] = True
                      else:
                          cand_graph.edges[(cand_id, succ)]["gt"] = False
      for node in cand_graph.nodes():
         if "gt" not in cand_graph.nodes[node]:
             cand_graph.nodes[node]["gt"] = False
  \<close>
\<close>

definition gt_succ_body :: "int \<Rightarrow> int list \<Rightarrow> int \<Rightarrow> nx_graph \<Rightarrow> error + nx_graph" where
  "gt_succ_body cand_id gt_succ_matches succ cand_graph =
     (if succ \<in> set gt_succ_matches
      then set_edge_attr cand_graph (cand_id, succ) (\<lambda>a. a\<lparr>attr_edge_gt := Some True\<rparr>)
      else set_edge_attr cand_graph (cand_id, succ) (\<lambda>a. a\<lparr>attr_edge_gt := Some False\<rparr>))"

definition gt_body :: "nx_graph \<Rightarrow> volume \<Rightarrow> int \<Rightarrow> nx_graph \<Rightarrow> error + nx_graph" where
  "gt_body gt_tracks segmentation gt_node cand_graph =
     bind (get_cand_id gt_node gt_tracks segmentation) (\<lambda>cand_id.
     if cand_id \<noteq> 0 then
       if map_of (nodes cand_graph) cand_id \<noteq> None then
         bind (set_node_attr cand_graph cand_id (\<lambda>a. a\<lparr>attr_gt := Some True\<rparr>)) (\<lambda>G.
         let gt_succs = successors gt_tracks gt_node in
         bind (map_result (\<lambda>gt_succ. get_cand_id gt_succ gt_tracks segmentation) gt_succs)
           (\<lambda>gt_succ_matches.
         let cand_succs = successors G cand_id in
         for_loop cand_succs (gt_succ_body cand_id gt_succ_matches) G))
       else Inr cand_graph
     else Inr cand_graph)"

definition gt_default_body :: "int \<Rightarrow> nx_graph \<Rightarrow> error + nx_graph" where
  "gt_default_body node cand_graph =
     bind (getitem (nodes cand_graph) node) (\<lambda>data.
     if attr_gt data = None
     then set_node_attr cand_graph node (\<lambda>a. a\<lparr>attr_gt := Some False\<rparr>)
     else Inr cand_graph)"

definition add_gt_annotations :: "nx_graph \<Rightarrow> nx_graph \<Rightarrow> volume \<Rightarrow> error + nx_graph" where
  "add_gt_annotations gt_tracks cand_graph segmentation =
     bind (for_loop (map fst (nodes gt_tracks)) (gt_body gt_tracks segmentation) cand_graph)
       (\<lambda>G. for_loop (map fst (nodes G)) gt_default_body G)"

text \<open>The lookup as the specification words it: the array is sampled at the coordinates
  rounded to the nearest integer.\<close>

definition get_cand_id_rounded :: "int \<Rightarrow> nx_graph \<Rightarrow> volume \<Rightarrow> error + int" where
  "get_cand_id_rounded gt_node gt_track cand_segmentation =
     bind (getitem (nodes gt_track) gt_node) (\<lambda>data.
     bind (attr (attr_t data)) (\<lambda>t.
     bind (attr (attr_x data)) (\<lambda>x.
     bind (np_index cand_segmentation t) (\<lambda>frame.
     bind (np_index frame (round x)) (\<lambda>row.
     bind (attr (attr_y data)) (\<lambda>y.
     np_index row (round y)))))))"

text \<open>One ground-truth point at \<open>x = 2.7\<close> in a frame of four rows and one column, whose
  third row belongs to detection 5 and whose fourth row belongs to detection 7.\<close>

definition gt_fixture :: nx_graph where
  "gt_fixture =
     \<lparr>nodes = [(1, no_node_attrs\<lparr>attr_t := Some 0, attr_x := Some (27 / 10), attr_y := Some 0\<rparr>)],
      edges = []\<rparr>"

definition seg_fixture :: volume where
  "seg_fixture = [[[0], [0], [5], [7]]]"

definition cand_fixture :: nx_graph where
  "cand_fixture =
     \<lparr>nodes = [(5, no_node_attrs\<lparr>attr_t := Some 0, attr_x := Some 2, attr_y := Some 0\<rparr>),
               (7, no_node_attrs\<lparr>attr_t := Some 0, attr_x := Some 3, attr_y := Some 0\<rparr>)],
      edges = []\<rparr>"

text \<open>What the annotation leaves on a candidate node: the flag \<^verbatim>\<open>gt = True\<close>.\<close>

definition gt_marked :: "nx_graph \<Rightarrow> int \<Rightarrow> bool" where
  "gt_marked G c \<longleftrightarrow> (case map_of (nodes G) c of None \<Rightarrow> False | Some a \<Rightarrow> attr_gt a = Some True)"

section \<open>Reading the ground-truth tracks\<close>

text \<open>
  \<^verbatim>\<open>
  def read_gt_tracks():
      gt_tracks = nx.DiGraph()
      with open("data/breast_cancer_fluo_gt_tracks.csv") as f:
          reader = DictReader(f)
          for row in reader:
              _id = int(row["id"])
              attrs = {
                  "x": float(row["x"]),
                  "y": float(row["y"]),
                  "t": int(row["time"]),
              }
              parent_id = int(row["parent_id"])
              gt_tracks.add_node(_id, **attrs)
              if parent_id != -1:
                  gt_tracks.add_edge(parent_id, _id)
      return gt_tracks
  \<close>
  The input of the model is the sequence of rows the \<^verbatim>\<open>DictReader\<close> yields, each a dict from
  the column names to the text of the field. Python's conversions \<^verbatim>\<open>int\<close> and \<^verbatim>\<open>float\<close> of a text
  are the parameters \<open>to_int\<close> and \<open>to_float\<close>; they raise \<^verbatim>\<open>ValueError\<close> on a malformed
  field.
\<close>

type_synonym csv_row = "(string \<times> string) list"

record gt_row =
  row_id :: int
  row_x :: real
  row_y :: real
  row_time :: int
  row_parent_id :: int

definition parse_row ::
  "(string \<Rightarrow> error + int) \<Rightarrow> (string \<Rightarrow> error + real) \<Rightarrow> csv_row \<Rightarrow> error + gt_row" where
  "parse_row to_int to_float row =
     bind (getitem row ''id'') (\<lambda>id_text. bind (to_int id_text) (\<lambda>id'.
     bind (getitem row ''x'') (\<lambda>x_text. bind (to_float x_text) (\<lambda>x.
     bind (getitem row ''y'') (\<lambda>y_text. bind (to_float y_text) (\<lambda>y.
     bind (getitem row ''time'') (\<lambda>t_text. bind (to_int t_text) (\<lambda>t.
     bind (getitem row ''parent_id'') (\<lambda>p_text. bind (to_int p_text) (\<lambda>parent_id.
     Inr \<lparr>row_id = id', row_x = x, row_y = y, row_time = t, row_parent_id = parent_id\<rparr>))))))))))"

definition store_row :: "gt_row \<Rightarrow> nx_graph \<Rightarrow> nx_graph" where
  "store_row r gt_tracks =
     (let G = add_node gt_tracks (row_id r)
                (\<lambda>a. a\<lparr>attr_x := Some (row_x r), attr_y := Some (row_y r), attr_t := Some (row_time r)\<rparr>)
      in if row_parent_id r \<noteq> - 1 then add_edge G (row_parent_id r) (row_id r) else G)"

definition read_row_body ::
  "(string \<Rightarrow> error + int) \<Rightarrow> (string \<Rightarrow> error + real) \<Rightarrow> csv_row \<Rightarrow> nx_graph \<Rightarrow> error + nx_graph" where
  "read_row_body to_int to_float row gt_tracks =
     bind (parse_row to_int to_float row) (\<lambda>r. Inr (store_row r gt_tracks))"

definition read_gt_tracks ::
  "(string \<Rightarrow> error + int) \<Rightarrow> (string \<Rightarrow> error + real) \<Rightarrow> csv_row list \<Rightarrow> error + nx_graph" where
  "read_gt_tracks to_int to_float rows = for_loop rows (read_row_body to_int to_float) DiGraph"

text \<open>Conversions for the fixtures: the decimal integer literals (an optional minus sign and
  digits), on which they agree with Python's \<^verbatim>\<open>int\<close> and \<^verbatim>\<open>float\<close>.\<close>

definition digit_of :: "char \<Rightarrow> error + nat" where
  "digit_of c =
     (if c = CHR ''0'' then Inr 0 else if c = CHR ''1'' then Inr 1 else if c = CHR ''2'' then Inr 2
      else if c = CHR ''3'' then Inr 3 else if c = CHR ''4'' then Inr 4 else if c = CHR ''5'' then Inr 5
      else if c = CHR ''6'' then Inr 6 else if c = CHR ''7'' then Inr 7 else if c = CHR ''8'' then Inr 8
      else if c = CHR ''9'' then Inr 9 else Inl ValueError)"

definition digits_value :: "string \<Rightarrow> error + nat" where
  "digits_value s =
     (if s = [] then Inl ValueError
      else bind (map_result digit_of s) (\<lambda>ds. Inr (foldl (\<lambda>n d. 10 * n + d) 0 ds)))"

definition int_literal :: "string \<Rightarrow> error + int" where
  "int_literal s =
     (case s of
        [] \<Rightarrow> Inl ValueError
      | c # cs \<Rightarrow>
          if c = CHR ''-'' then bind (digits_value cs) (\<lambda>n. Inr (- int n))
          else bind (digits_value s) (\<lambda>n. Inr (int n)))"

definition float_literal :: "string \<Rightarrow> error + real" where
  "float_literal s = bind (int_literal s) (\<lambda>i. Inr (real_of_int i))"

text \<open>A table in which the id 1 occurs in two rows.\<close>

definition duplicate_rows :: "csv_row list" where
  "duplicate_rows =
     [[(''id'', ''1''), (''time'', ''0''), (''x'', ''10''), (''y'', ''20''), (''parent_id'', ''-1'')],
      [(''id'', ''1''), (''time'', ''5''), (''x'', ''30''), (''y'', ''40''), (''parent_id'', ''-1'')]]"

section \<open>Relabelling the segmentation\<close>

subsection \<open>Tracklet ids\<close>

text \<open>
  Modelled from the spec: \<^verbatim>\<open>assign_tracklet_ids\<close> is imported from the package
  \<^verbatim>\<open>motile_toolbox\<close>, whose code is not in the repository. The specification says that it
  assigns every node of the solution graph a \<^verbatim>\<open>tracklet_id\<close>, a shared identifier for every
  maximal chain of nodes connected by selected edges that does not cross a division: the
  children of a node with two selected children start new tracklets. The chains are the
  connected components of the graph without the edges that leave a node with two or more
  children; they are numbered 1, 2, ... in the order of their first nodes.
\<close>

definition chain_edges :: "nx_graph \<Rightarrow> (int \<times> int) list" where
  "chain_edges G = filter (\<lambda>e. out_degree G (fst e) < 2) (map fst (edges G))"

definition chain_step :: "(int \<times> int) list \<Rightarrow> int list \<Rightarrow> int list" where
  "chain_step es S =
     remdups (S @ map snd (filter (\<lambda>e. fst e \<in> set S) es) @ map fst (filter (\<lambda>e. snd e \<in> set S) es))"

definition chain_of :: "nx_graph \<Rightarrow> int \<Rightarrow> int list" where
  "chain_of G n = (chain_step (chain_edges G) ^^ length (nodes G)) [n]"

fun number_chains :: "nx_graph \<Rightarrow> int list \<Rightarrow> (int \<times> int) list \<Rightarrow> int \<Rightarrow> (int \<times> int) list" where
  "number_chains G [] assigned track_id = assigned"
| "number_chains G (n # ns) assigned track_id =
     (if map_of assigned n \<noteq> None then number_chains G ns assigned track_id
      else number_chains G ns (assigned @ map (\<lambda>m. (m, track_id)) (chain_of G n)) (track_id + 1))"

definition tracklet_ids :: "nx_graph \<Rightarrow> (int \<times> int) list" where
  "tracklet_ids G = number_chains G (map fst (nodes G)) [] 1"

definition assign_tracklet_ids :: "nx_graph \<Rightarrow> nx_graph" where
  "assign_tracklet_ids G =
     G\<lparr>nodes := map (\<lambda>item. (fst item,
                   case map_of (tracklet_ids G) (fst item) of
                     None \<Rightarrow> snd item
                   | Some track_id \<Rightarrow> (snd item)\<lparr>attr_tracklet_id := Some track_id\<rparr>))
                 (nodes G)\<rparr>"

subsection \<open>The objects of a call\<close>

text \<open>
  The graph argument is mutated in place and the result is a new array, so the objects live
  in a store: a reference is the position of an object in the store, and allocating an object
  appends it to the store.
\<close>

text \<open>
  A NumPy array has a dtype, the fixed-width integer type of its elements: \<open>UInt w\<close> is the
  unsigned type of \<open>w\<close> bits (\<^verbatim>\<open>uint8\<close>, \<^verbatim>\<open>uint32\<close>), \<open>SInt w\<close> the signed one (\<^verbatim>\<open>int64\<close>).
  The store keeps the elements of every array and, for every reference, the dtype of the
  array.
\<close>

datatype dtype = UInt nat | SInt nat

fun representable :: "dtype \<Rightarrow> int \<Rightarrow> bool" where
  "representable (UInt w) v = (0 \<le> v \<and> v < 2 ^ w)"
| "representable (SInt w) v = (- (2 ^ (w - 1)) \<le> v \<and> v < 2 ^ (w - 1))"

record heap =
  graphs :: "nx_graph list"
  arrays :: "volume list"
  dtypes :: "nat \<Rightarrow> dtype"

definition deref :: "'a list \<Rightarrow> nat \<Rightarrow> error + 'a" where
  "deref store r = (if r < length store then Inr (store ! r) else Inl InvalidRef)"

text \<open>\<^verbatim>\<open>np.zeros_like(a)\<close>: a new array of the shape and the dtype of \<^verbatim>\<open>a\<close>, filled with 0.
  \<^verbatim>\<open>frame == label\<close>: the boolean mask of the pixels equal to the label.
  \<^verbatim>\<open>frame[mask] = value\<close>: the Python integer \<^verbatim>\<open>value\<close> is converted to the dtype of the array,
  which raises \<^verbatim>\<open>OverflowError\<close> when the dtype cannot represent it (NumPy 2; older versions
  wrapped the value around with a warning), and the pixels under the mask are overwritten.\<close>

definition as_dtype :: "dtype \<Rightarrow> int \<Rightarrow> error + int" where
  "as_dtype d v = (if representable d v then Inr v else Inl OverflowError)"

definition zeros_like :: "volume \<Rightarrow> volume" where
  "zeros_like a = map (map (map (\<lambda>_. 0))) a"

definition equals_mask :: "int frame \<Rightarrow> int \<Rightarrow> bool frame" where
  "equals_mask frame label = map (map (\<lambda>v. v = label)) frame"

definition masked_fill :: "int frame \<Rightarrow> bool frame \<Rightarrow> int \<Rightarrow> int frame" where
  "masked_fill frame selected v = map2 (map2 (\<lambda>old m. if m then v else old)) frame selected"

subsection \<open>The relabelling\<close>

text \<open>
  \<^verbatim>\<open>
  def relabel_segmentation(solution_nx_graph, segmentation):
      assign_tracklet_ids(solution_nx_graph)
      tracked_masks = np.zeros_like(segmentation)
      for node, data in solution_nx_graph.nodes(data=True):
          time_frame = solution_nx_graph.nodes[node]["t"]
          previous_seg_id = node
          track_id = solution_nx_graph.nodes[node]["tracklet_id"]
          previous_seg_mask = (
              segmentation[time_frame] == previous_seg_id
          )
          tracked_masks[time_frame][previous_seg_mask] = track_id
      return tracked_masks
  \<close>
  The arguments and the result are references into the store; the function returns the
  reference of the new array together with the store as the call leaves it.
\<close>

definition relabel_body :: "nat \<Rightarrow> nat \<Rightarrow> nat \<Rightarrow> int \<times> node_attrs \<Rightarrow> heap \<Rightarrow> error + heap" where
  "relabel_body solution_nx_graph segmentation tracked_masks item h =
     (let node = fst item in
      bind (deref (graphs h) solution_nx_graph) (\<lambda>G.
      bind (getitem (nodes G) node) (\<lambda>data_t.
      bind (attr (attr_t data_t)) (\<lambda>time_frame.
      let previous_seg_id = node in
      bind (getitem (nodes G) node) (\<lambda>data_id.
      bind (attr (attr_tracklet_id data_id)) (\<lambda>track_id.
      bind (deref (arrays h) segmentation) (\<lambda>seg.
      bind (np_index seg time_frame) (\<lambda>seg_frame.
      let previous_seg_mask = equals_mask seg_frame previous_seg_id in
      bind (deref (arrays h) tracked_masks) (\<lambda>tracked.
      bind (np_position tracked time_frame) (\<lambda>k.
      bind (as_dtype (dtypes h tracked_masks) track_id) (\<lambda>v.
      Inr (h\<lparr>arrays := (arrays h)
              [tracked_masks := tracked[k := masked_fill (tracked ! k) previous_seg_mask v]]\<rparr>
          ))))))))))))"

definition relabel_segmentation :: "nat \<Rightarrow> nat \<Rightarrow> heap \<Rightarrow> error + (nat \<times> heap)" where
  "relabel_segmentation solution_nx_graph segmentation h =
     bind (deref (graphs h) solution_nx_graph) (\<lambda>G.
     let h1 = h\<lparr>graphs := (graphs h)[solution_nx_graph := assign_tracklet_ids G]\<rparr> in
     bind (deref (arrays h1) segmentation) (\<lambda>seg.
     let tracked_masks = length (arrays h1);
         h2 = h1\<lparr>arrays := arrays h1 @ [zeros_like seg],
                 dtypes := (dtypes h1)(tracked_masks := dtypes h1 segmentation)\<rparr> in
     bind (deref (graphs h2) solution_nx_graph) (\<lambda>G'.
     bind (for_loop (nodes G') (relabel_body solution_nx_graph segmentation tracked_masks) h2)
       (\<lambda>h3. Inr (tracked_masks, h3)))))"

text \<open>What a reader sees: the tracklet id of a node, and the shape of an array (the numbers
  of rows of its frames and the lengths of the rows).\<close>

definition tracklet_of :: "nx_graph \<Rightarrow> int \<Rightarrow> int option" where
  "tracklet_of G n = (case map_of (nodes G) n of None \<Rightarrow> None | Some a \<Rightarrow> attr_tracklet_id a)"

definition shape :: "volume \<Rightarrow> nat list list" where
  "shape a = map (map length) a"

text \<open>A solution with the track 5 \<rightarrow> 6 over the frames 0 and 1, and a volume of two frames that
  also holds the detection 9, which is not in the solution. The volume has the dtype
  \<^verbatim>\<open>uint32\<close>.\<close>

definition relabel_graph :: nx_graph where
  "relabel_graph =
     \<lparr>nodes = [(5, no_node_attrs\<lparr>attr_t := Some 0, attr_x := Some 0, attr_y := Some 0\<rparr>),
               (6, no_node_attrs\<lparr>attr_t := Some 1, attr_x := Some 0, attr_y := Some 1\<rparr>)],
      edges = [((5, 6), no_edge_attrs)]\<rparr>"

definition relabel_volume :: volume where
  "relabel_volume = [[[5, 9], [0, 5]], [[0, 6], [9, 6]]]"

definition relabel_heap :: heap where
  "relabel_heap =
     \<lparr>graphs = [relabel_graph], arrays = [relabel_volume], dtypes = (\<lambda>r. UInt 32)\<rparr>"

text \<open>The pixel \<open>(f, i, j)\<close> lies inside the array.\<close>

definition inside :: "volume \<Rightarrow> nat \<Rightarrow> nat \<Rightarrow> nat \<Rightarrow> bool" where
  "inside a f i j \<longleftrightarrow> f < length a \<and> i < length (a ! f) \<and> j < length (a ! f ! i)"

text \<open>The frame of the array a node is written to: the position its \<^verbatim>\<open>t\<close> names in the volume
  (for \<open>0 \<le> t\<close> inside the volume, the frame \<open>t\<close> itself).\<close>

definition frame_position :: "nx_graph \<Rightarrow> volume \<Rightarrow> int \<Rightarrow> nat option" where
  "frame_position G seg n =
     (case frame_of G n of
        None \<Rightarrow> None
      | Some t \<Rightarrow> (case np_position seg t of Inl e \<Rightarrow> None | Inr k \<Rightarrow> Some k))"

section \<open>The tracking solver\<close>

text \<open>
  Modelled from the spec: the three solving functions of the notebook only configure
  \<^verbatim>\<open>motile.Solver\<close> (costs and constraints) and call \<^verbatim>\<open>solve\<close> and
  \<^verbatim>\<open>get_selected_subgraph\<close>; the package \<^verbatim>\<open>motile\<close> and the ILP backend it calls are not in
  the repository. The specification says: every candidate node and every candidate edge gets
  a binary decision variable; an edge may be selected only if both its end points are
  selected; \<^verbatim>\<open>MaxParents(k)\<close> allows a selected node at most \<open>k\<close> selected incoming edges and
  \<^verbatim>\<open>MaxChildren(k)\<close> at most \<open>k\<close> selected outgoing edges; the edge-distance cost of an edge is
  \<open>weight * distance + constant\<close>, the edge-selection cost is \<open>weight * drift_dist + constant\<close>,
  the appear cost is charged for every selected node without a selected incoming edge unless
  the node is flagged \<^verbatim>\<open>ignore_appear = True\<close>, the division cost is charged for every node
  with two selected outgoing edges; the solver minimises the sum of the costs, and the
  solution is the subgraph of the nodes and edges whose variable is 1.

  An ILP can have several optimal assignments, and the backend returns one of them. The model
  of \<^verbatim>\<open>solve\<close> therefore returns the list of all optimal solution graphs: what holds for
  every member of the list holds for the graph the solver returns.
\<close>

datatype cost =
    EdgeDistance real real
  | EdgeSelection real real
  | Appear real bool
  | Split real

text \<open>\<open>EdgeDistance weight constant\<close> has the position attribute \<^verbatim>\<open>("x", "y")\<close>,
  \<open>EdgeSelection weight constant\<close> the attribute \<^verbatim>\<open>"drift_dist"\<close>; \<open>Appear constant ignore\<close>
  has the ignore attribute \<^verbatim>\<open>"ignore_appear"\<close> when \<open>ignore\<close> is true and none otherwise.\<close>

datatype constraint = MaxParents nat | MaxChildren nat

record solver =
  graph :: nx_graph
  costs :: "cost list"
  constraints :: "constraint list"

record selection =
  selected_nodes :: "int list"
  selected_edges :: "(int \<times> int) list"

definition edge_cost :: "nx_graph \<Rightarrow> cost \<Rightarrow> int \<times> int \<Rightarrow> real" where
  "edge_cost G c e =
     (case c of
        EdgeDistance weight constant \<Rightarrow>
          (case position G (fst e) of None \<Rightarrow> 0
           | Some p \<Rightarrow> (case position G (snd e) of None \<Rightarrow> 0
                       | Some q \<Rightarrow> weight * distance p q + constant))
      | EdgeSelection weight constant \<Rightarrow>
          (case drift_dist_of G e of None \<Rightarrow> 0 | Some d \<Rightarrow> weight * d + constant)
      | Appear constant ignore \<Rightarrow> 0
      | Split constant \<Rightarrow> 0)"

definition ignored :: "nx_graph \<Rightarrow> int \<Rightarrow> bool" where
  "ignored G n =
     (case map_of (nodes G) n of None \<Rightarrow> False | Some a \<Rightarrow> attr_ignore_appear a = Some True)"

definition appear_cost :: "nx_graph \<Rightarrow> cost \<Rightarrow> int \<Rightarrow> real" where
  "appear_cost G c n =
     (case c of
        Appear constant ignore \<Rightarrow> if ignore \<and> ignored G n then 0 else constant
      | EdgeDistance weight constant \<Rightarrow> 0
      | EdgeSelection weight constant \<Rightarrow> 0
      | Split constant \<Rightarrow> 0)"

definition split_cost :: "cost \<Rightarrow> real" where
  "split_cost c =
     (case c of
        Split constant \<Rightarrow> constant
      | EdgeDistance weight constant \<Rightarrow> 0
      | EdgeSelection weight constant \<Rightarrow> 0
      | Appear constant ignore \<Rightarrow> 0)"

text \<open>The attributes a cost reads must be there: an edge-distance cost needs the positions
  of both end points of every candidate edge, an edge-selection cost the \<^verbatim>\<open>drift_dist\<close> of
  every candidate edge.\<close>

definition cost_ready :: "nx_graph \<Rightarrow> cost \<Rightarrow> bool" where
  "cost_ready G c =
     (case c of
        EdgeDistance weight constant \<Rightarrow>
          list_all (\<lambda>e. position G (fst e) \<noteq> None \<and> position G (snd e) \<noteq> None) (map fst (edges G))
      | EdgeSelection weight constant \<Rightarrow>
          list_all (\<lambda>e. drift_dist_of G e \<noteq> None) (map fst (edges G))
      | Appear constant ignore \<Rightarrow> True
      | Split constant \<Rightarrow> True)"

definition parents_in :: "selection \<Rightarrow> int \<Rightarrow> nat" where
  "parents_in sel n = length (filter (\<lambda>e. snd e = n) (selected_edges sel))"

definition children_in :: "selection \<Rightarrow> int \<Rightarrow> nat" where
  "children_in sel n = length (filter (\<lambda>e. fst e = n) (selected_edges sel))"

definition objective :: "solver \<Rightarrow> selection \<Rightarrow> real" where
  "objective S sel =
     sum_list (map (\<lambda>e. sum_list (map (\<lambda>c. edge_cost (graph S) c e) (costs S))) (selected_edges sel))
   + sum_list (map (\<lambda>n. sum_list (map (\<lambda>c. appear_cost (graph S) c n) (costs S)))
        (filter (\<lambda>n. parents_in sel n = 0) (selected_nodes sel)))
   + sum_list (map (\<lambda>n. sum_list (map split_cost (costs S)))
        (filter (\<lambda>n. 2 \<le> children_in sel n) (selected_nodes sel)))"

definition satisfies :: "selection \<Rightarrow> constraint \<Rightarrow> bool" where
  "satisfies sel c =
     (case c of
        MaxParents k \<Rightarrow> list_all (\<lambda>n. parents_in sel n \<le> k) (selected_nodes sel)
      | MaxChildren k \<Rightarrow> list_all (\<lambda>n. children_in sel n \<le> k) (selected_nodes sel))"

definition feasible :: "solver \<Rightarrow> selection \<Rightarrow> bool" where
  "feasible S sel \<longleftrightarrow>
     list_all (\<lambda>e. fst e \<in> set (selected_nodes sel) \<and> snd e \<in> set (selected_nodes sel))
       (selected_edges sel)
     \<and> list_all (satisfies sel) (constraints S)"

definition all_selections :: "nx_graph \<Rightarrow> selection list" where
  "all_selections G =
     concat (map (\<lambda>ns. map (\<lambda>es. \<lparr>selected_nodes = ns, selected_edges = es\<rparr>)
                            (subseqs (map fst (edges G))))
                 (subseqs (map fst (nodes G))))"

definition solutions :: "solver \<Rightarrow> selection list" where
  "solutions S =
     (let candidates = filter (feasible S) (all_selections (graph S))
      in filter (\<lambda>sel. list_all (\<lambda>other. objective S sel \<le> objective S other) candidates)
           candidates)"

definition selected_subgraph :: "nx_graph \<Rightarrow> selection \<Rightarrow> nx_graph" where
  "selected_subgraph G sel =
     \<lparr>nodes = filter (\<lambda>item. fst item \<in> set (selected_nodes sel)) (nodes G),
      edges = filter (\<lambda>item. fst item \<in> set (selected_edges sel)) (edges G)\<rparr>"

definition solve :: "solver \<Rightarrow> error + nx_graph list" where
  "solve S =
     (if list_all (cost_ready (graph S)) (costs S)
      then Inr (map (selected_subgraph (graph S)) (solutions S))
      else Inl KeyError)"







text \<open>A candidate graph with one detection in each of the frames 0 and 1.\<close>

definition pair_candidates :: nx_graph where
  "pair_candidates =
     \<lparr>nodes = [(1, no_node_attrs\<lparr>attr_t := Some 0, attr_x := Some 0, attr_y := Some 0\<rparr>),
               (2, no_node_attrs\<lparr>attr_t := Some 1, attr_x := Some 0, attr_y := Some 0\<rparr>)],
      edges = [((1, 2), no_edge_attrs)]\<rparr>"


text \<open>A cost term is non-negative-valued when its weight and its constant are not negative
  and, for the edge-selection cost, no candidate edge has a negative \<^verbatim>\<open>drift_dist\<close>.\<close>

definition nonnegative_cost :: "nx_graph \<Rightarrow> cost \<Rightarrow> bool" where
  "nonnegative_cost G c =
     (case c of
        EdgeDistance weight constant \<Rightarrow> 0 \<le> weight \<and> 0 \<le> constant
      | EdgeSelection weight constant \<Rightarrow>
          0 \<le> weight \<and> 0 \<le> constant
          \<and> list_all (\<lambda>e. case drift_dist_of G e of None \<Rightarrow> True | Some d \<Rightarrow> 0 \<le> d)
                (map fst (edges G))
      | Appear constant ignore \<Rightarrow> 0 \<le> constant
      | Split constant \<Rightarrow> 0 \<le> constant)"

definition nothing_selected :: selection where
  "nothing_selected = \<lparr>selected_nodes = [], selected_edges = []\<rparr>"

text \<open>The basic configuration with the constant 20 in place of \<open>-20\<close>, on the two detections
  of \<^const>\<open>pair_candidates\<close>: every cost is positive. And a solver whose only cost is
  \<^verbatim>\<open>Appear(constant=0)\<close>, on a candidate graph with a single detection in frame 0 that is not
  flagged \<^verbatim>\<open>ignore_appear\<close>: no cost is negative, and every selection costs nothing.\<close>

definition costly_solver :: solver where
  "costly_solver =
     \<lparr>graph = pair_candidates,
      costs = [EdgeDistance 1 20, Appear 1 False],
      constraints = [MaxParents 1, MaxChildren 2]\<rparr>"

definition tie_candidate :: nx_graph where
  "tie_candidate =
     \<lparr>nodes = [(1, no_node_attrs\<lparr>attr_t := Some 0, attr_x := Some 0, attr_y := Some 0\<rparr>)],
      edges = []\<rparr>"

definition tie_solver :: solver where
  "tie_solver =
     \<lparr>graph = tie_candidate,
      costs = [Appear 0 False],
      constraints = [MaxParents 1, MaxChildren 2]\<rparr>"

section \<open>Properties\<close>

subsection \<open>Basic facts about the containers\<close>

lemma bind_Inr [simp]: "bind (Inr v) f = f v"
  by (simp add: bind_def)

lemma bind_Inl [simp]: "bind (Inl e) f = Inl e"
  by (simp add: bind_def)

lemma bind_eq_Inr: "bind m f = Inr y \<longleftrightarrow> (\<exists>v. m = Inr v \<and> f v = Inr y)"
  by (cases m) simp_all

lemma getitem_eq_Inr: "getitem d k = Inr v \<longleftrightarrow> map_of d k = Some v"
  by (simp add: getitem_def split: option.splits)

lemma attr_eq_Inr: "attr v = Inr a \<longleftrightarrow> v = Some a"
  by (simp add: attr_def split: option.splits)

lemma keys_update_present:
  "map_of al k = Some w \<Longrightarrow> map fst (AList.update k v al) = map fst al"
  by (induction al) (auto split: if_splits)

subsection \<open>Dataset loader\<close>

text \<open>
  Claim C2 (the loader fails whenever the image series and the label series have
  different frame counts). The assertion of the source compares \<^verbatim>\<open>len(x)\<close> with itself,
  so it can never fail: two image frames and one label frame are loaded without an error.
\<close>

theorem load_dataset_accepts_mismatch:
  "load_dataset [[[1::int]], [[2]]] [[[7::int]]] = Inr ([[[1]], [[2]]], [[[7]]])
   \<and> length [[[1::int]], [[2]]] \<noteq> length [[[7::int]]]"
  by (simp add: load_dataset_def np_stack_def bind_def)

subsection \<open>Drift distance\<close>

lemma drift_body_Inr:
  "drift_body d e G = Inr G' \<longleftrightarrow>
     (\<exists>ea p0 p1. map_of (edges G) e = Some ea \<and> position G (fst e) = Some p0
        \<and> position G (snd e) = Some p1
        \<and> G' = G\<lparr>edges := AList.update e
              (ea\<lparr>attr_drift_dist :=
                 Some (linalg_norm (fst p0 + fst d - fst p1, snd p0 + snd d - snd p1))\<rparr>)
              (edges G)\<rparr>)"
  by (auto simp: drift_body_def Let_def bind_eq_Inr getitem_eq_Inr attr_eq_Inr position_def
        set_edge_attr_def split: option.splits)

lemma position_edges_update [simp]: "position (G\<lparr>edges := es\<rparr>) n = position G n"
  by (simp add: position_def)

lemma drift_loop_post:
  "for_loop es (drift_body d) G = Inr G' \<Longrightarrow>
     nodes G' = nodes G \<and> map fst (edges G') = map fst (edges G)
     \<and> (\<forall>e. e \<notin> set es \<longrightarrow> map_of (edges G') e = map_of (edges G) e)
     \<and> (\<forall>e p0 p1. e \<in> set es \<longrightarrow> position G (fst e) = Some p0 \<longrightarrow> position G (snd e) = Some p1 \<longrightarrow>
           drift_dist_of G' e = Some (linalg_norm (fst p0 + fst d - fst p1, snd p0 + snd d - snd p1)))"
proof (induction es arbitrary: G)
  case Nil
  then show ?case by simp
next
  case (Cons e es)
  from Cons.prems obtain G1 where b: "drift_body d e G = Inr G1"
    and r: "for_loop es (drift_body d) G1 = Inr G'"
    by (auto simp: bind_eq_Inr)
  from b obtain ea p0 p1 where ea: "map_of (edges G) e = Some ea"
    and p0: "position G (fst e) = Some p0" and p1: "position G (snd e) = Some p1"
    and G1: "G1 = G\<lparr>edges := AList.update e
              (ea\<lparr>attr_drift_dist :=
                 Some (linalg_norm (fst p0 + fst d - fst p1, snd p0 + snd d - snd p1))\<rparr>)
              (edges G)\<rparr>"
    by (auto simp: drift_body_Inr)
  have pos: "position G1 n = position G n" for n by (simp add: G1)
  have n1: "nodes G1 = nodes G" by (simp add: G1)
  have k1: "map fst (edges G1) = map fst (edges G)"
    using ea by (simp add: G1 keys_update_present)
  have m1: "map_of (edges G1) = (map_of (edges G))(e \<mapsto> ea\<lparr>attr_drift_dist :=
                 Some (linalg_norm (fst p0 + fst d - fst p1, snd p0 + snd d - snd p1))\<rparr>)"
    by (simp add: G1 update_conv')
  note IH = Cons.IH[OF r]
  show ?case
  proof (intro conjI allI impI)
    show "nodes G' = nodes G" using IH n1 by simp
    show "map fst (edges G') = map fst (edges G)" using IH k1 by simp
  next
    fix e' assume "e' \<notin> set (e # es)"
    then have "e' \<notin> set es" "e' \<noteq> e" by auto
    have "map_of (edges G') e' = map_of (edges G1) e'"
      using IH \<open>e' \<notin> set es\<close> by blast
    moreover have "map_of (edges G1) e' = map_of (edges G) e'"
      using \<open>e' \<noteq> e\<close> by (simp add: m1)
    ultimately show "map_of (edges G') e' = map_of (edges G) e'" by simp
  next
    fix e' q0 q1
    assume in': "e' \<in> set (e # es)" and q0: "position G (fst e') = Some q0"
      and q1: "position G (snd e') = Some q1"
    show "drift_dist_of G' e' = Some (linalg_norm (fst q0 + fst d - fst q1, snd q0 + snd d - snd q1))"
    proof (cases "e' \<in> set es")
      case True
      have "position G1 (fst e') = Some q0" "position G1 (snd e') = Some q1"
        using q0 q1 pos by simp_all
      with True IH show ?thesis by blast
    next
      case False
      with in' have "e' = e" by simp
      moreover from False IH have "map_of (edges G') e' = map_of (edges G1) e'" by blast
      ultimately show ?thesis using p0 p1 q0 q1 by (simp add: drift_dist_of_def m1)
    qed
  qed
qed

lemma drift_loop_total:
  "\<forall>e \<in> set es. map_of (edges G) e \<noteq> None \<and> position G (fst e) \<noteq> None \<and> position G (snd e) \<noteq> None
   \<Longrightarrow> \<exists>G'. for_loop es (drift_body d) G = Inr G'"
proof (induction es arbitrary: G)
  case Nil
  then show ?case by simp
next
  case (Cons e es)
  then obtain ea p0 p1 where ea: "map_of (edges G) e = Some ea"
    and p0: "position G (fst e) = Some p0" and p1: "position G (snd e) = Some p1"
    by auto
  define G1 where "G1 = G\<lparr>edges := AList.update e
              (ea\<lparr>attr_drift_dist :=
                 Some (linalg_norm (fst p0 + fst d - fst p1, snd p0 + snd d - snd p1))\<rparr>)
              (edges G)\<rparr>"
  have b: "drift_body d e G = Inr G1"
    using ea p0 p1 by (simp add: drift_body_Inr G1_def)
  have "\<forall>e' \<in> set es. map_of (edges G1) e' \<noteq> None \<and> position G1 (fst e') \<noteq> None
          \<and> position G1 (snd e') \<noteq> None"
    using Cons.prems by (auto simp: G1_def update_conv')
  from Cons.IH[OF this] show ?case using b by simp
qed

text \<open>
  Claim C8. When every edge joins two nodes that have a position, the pass succeeds, changes
  neither the nodes nor the set of edges, and leaves on every edge from \<open>u\<close> (at \<open>p0\<close>) to
  \<open>v\<close> (at \<open>p1\<close>) the attribute \<^verbatim>\<open>drift_dist\<close> equal to the Euclidean norm of
  \<open>(p0 + d) - p1\<close>.
\<close>

theorem add_drift_dist_attr_norm:
  assumes "\<forall>e \<in> fst ` set (edges G). position G (fst e) \<noteq> None \<and> position G (snd e) \<noteq> None"
  shows "\<exists>G'. add_drift_dist_attr G d = Inr G' \<and> nodes G' = nodes G
           \<and> map fst (edges G') = map fst (edges G)
           \<and> (\<forall>u v p0 p1. (u, v) \<in> fst ` set (edges G) \<longrightarrow> position G u = Some p0 \<longrightarrow>
                 position G v = Some p1 \<longrightarrow>
                 drift_dist_of G' (u, v)
                   = Some (linalg_norm (fst p0 + fst d - fst p1, snd p0 + snd d - snd p1)))"
proof -
  have "\<forall>e \<in> set (map fst (edges G)). map_of (edges G) e \<noteq> None \<and> position G (fst e) \<noteq> None
          \<and> position G (snd e) \<noteq> None"
    using assms by (auto simp: map_of_eq_None_iff)
  from drift_loop_total[OF this, of d] obtain G' where G': "add_drift_dist_attr G d = Inr G'"
    unfolding add_drift_dist_attr_def by blast
  from drift_loop_post[OF G'[unfolded add_drift_dist_attr_def]] G' show ?thesis
    by (intro exI[of _ G']) auto
qed

theorem add_drift_dist_attr_norm_witness:
  "\<exists>G'. add_drift_dist_attr drift_fixture (-10, 0) = Inr G'
      \<and> drift_dist_of G' (1, 2) = Some 0 \<and> drift_dist_of G' (1, 3) = Some 10"
proof -
  have h: "\<forall>e \<in> fst ` set (edges drift_fixture).
             position drift_fixture (fst e) \<noteq> None \<and> position drift_fixture (snd e) \<noteq> None"
    by (simp add: drift_fixture_def position_def no_node_attrs_def)
  from add_drift_dist_attr_norm[OF h, of "(-10, 0)"] obtain G' where
    G': "add_drift_dist_attr drift_fixture (-10, 0) = Inr G'"
    and v: "\<And>u v p0 p1. (u, v) \<in> fst ` set (edges drift_fixture) \<Longrightarrow>
              position drift_fixture u = Some p0 \<Longrightarrow> position drift_fixture v = Some p1 \<Longrightarrow>
              drift_dist_of G' (u, v)
                = Some (linalg_norm (fst p0 + fst (-10, 0::real) - fst p1, snd p0 + snd (-10::real, 0) - snd p1))"
    by blast
  have a: "drift_dist_of G' (1, 2) = Some 0"
    using v[of 1 2 "(0, 0)" "(-10, 0)"]
    by (simp add: drift_fixture_def position_def no_node_attrs_def linalg_norm_def)
  have b: "drift_dist_of G' (1, 3) = Some 10"
    using v[of 1 3 "(0, 0)" "(0, 0)"]
    by (simp add: drift_fixture_def position_def no_node_attrs_def linalg_norm_def)
  show ?thesis using G' a b by blast
qed

subsection \<open>Appearance at the boundary\<close>

lemma appear_body_Inr:
  "appear_body n G = Inr G' \<longleftrightarrow>
     (\<exists>a. map_of (nodes G) n = Some a \<and> attr_t a \<noteq> None \<and> attr_x a \<noteq> None
        \<and> G' = (if at_boundary a then G\<lparr>nodes := AList.update n (tagged a) (nodes G)\<rparr> else G))"
  by (auto simp: appear_body_def bind_eq_Inr getitem_eq_Inr attr_eq_Inr set_node_attr_def
        at_boundary_def tagged_def)

lemma tagged_facts [simp]:
  "attr_t (tagged a) = attr_t a" "attr_x (tagged a) = attr_x a"
  "at_boundary (tagged a) = at_boundary a" "tagged (tagged a) = tagged a"
  by (simp_all add: tagged_def at_boundary_def)

lemma appear_loop_post:
  "for_loop ns appear_body G = Inr G' \<Longrightarrow>
     edges G' = edges G \<and> map fst (nodes G') = map fst (nodes G)
     \<and> (\<forall>n. n \<notin> set ns \<longrightarrow> map_of (nodes G') n = map_of (nodes G) n)
     \<and> (\<forall>n a. n \<in> set ns \<longrightarrow> map_of (nodes G) n = Some a \<longrightarrow>
           map_of (nodes G') n = Some (tagged a))"
proof (induction ns arbitrary: G)
  case Nil
  then show ?case by simp
next
  case (Cons m ns)
  from Cons.prems obtain G1 where b: "appear_body m G = Inr G1"
    and r: "for_loop ns appear_body G1 = Inr G'"
    by (auto simp: bind_eq_Inr)
  from b obtain a where a: "map_of (nodes G) m = Some a"
    and G1: "G1 = (if at_boundary a then G\<lparr>nodes := AList.update m (tagged a) (nodes G)\<rparr> else G)"
    by (auto simp: appear_body_Inr)
  have e1: "edges G1 = edges G" by (simp add: G1)
  have k1: "map fst (nodes G1) = map fst (nodes G)"
    using a by (simp add: G1 keys_update_present)
  have m1: "map_of (nodes G1) = (map_of (nodes G))(m \<mapsto> tagged a)"
    using a by (auto simp: G1 update_conv' tagged_def)
  note IH = Cons.IH[OF r]
  show ?case
  proof (intro conjI allI impI)
    show "edges G' = edges G" using IH e1 by simp
    show "map fst (nodes G') = map fst (nodes G)" using IH k1 by simp
  next
    fix n assume "n \<notin> set (m # ns)"
    then have "n \<notin> set ns" "n \<noteq> m" by auto
    have "map_of (nodes G') n = map_of (nodes G1) n"
      using IH \<open>n \<notin> set ns\<close> by blast
    moreover have "map_of (nodes G1) n = map_of (nodes G) n"
      using \<open>n \<noteq> m\<close> by (simp add: m1)
    ultimately show "map_of (nodes G') n = map_of (nodes G) n" by simp
  next
    fix n b
    assume n: "n \<in> set (m # ns)" and nb: "map_of (nodes G) n = Some b"
    show "map_of (nodes G') n = Some (tagged b)"
    proof (cases "n \<in> set ns")
      case True
      have "map_of (nodes G1) n = Some (if n = m then tagged a else b)"
        using nb by (simp add: m1)
      with True IH have "map_of (nodes G') n = Some (tagged (if n = m then tagged a else b))"
        by blast
      then show ?thesis using a nb by (auto split: if_splits)
    next
      case False
      with n have "n = m" by simp
      moreover from False IH have "map_of (nodes G') n = map_of (nodes G1) n" by blast
      ultimately show ?thesis using a nb by (simp add: m1)
    qed
  qed
qed

lemma appear_loop_total:
  "\<forall>n \<in> set ns. \<exists>a. map_of (nodes G) n = Some a \<and> attr_t a \<noteq> None \<and> attr_x a \<noteq> None
   \<Longrightarrow> \<exists>G'. for_loop ns appear_body G = Inr G'"
proof (induction ns arbitrary: G)
  case Nil
  then show ?case by simp
next
  case (Cons m ns)
  then obtain a where a: "map_of (nodes G) m = Some a" "attr_t a \<noteq> None" "attr_x a \<noteq> None"
    by auto
  define G1 where
    "G1 = (if at_boundary a then G\<lparr>nodes := AList.update m (tagged a) (nodes G)\<rparr> else G)"
  have b: "appear_body m G = Inr G1"
    using a by (simp add: appear_body_Inr G1_def)
  have m1: "map_of (nodes G1) = (map_of (nodes G))(m \<mapsto> tagged a)"
    using a by (auto simp: G1_def update_conv' tagged_def)
  have "\<forall>n \<in> set ns. \<exists>a. map_of (nodes G1) n = Some a \<and> attr_t a \<noteq> None \<and> attr_x a \<noteq> None"
    using Cons.prems a by (auto simp: m1)
  from Cons.IH[OF this] show ?case using b by simp
qed

text \<open>
  Claim C7. On a candidate graph whose nodes all have \<^verbatim>\<open>t\<close> and \<^verbatim>\<open>x\<close>, the pass with the
  boundary 710 succeeds and keeps the node ids and the edges. A node with \<open>t = 0\<close> or
  \<open>x \<ge> 710\<close> ends with \<^verbatim>\<open>ignore_appear = True\<close> and its other attributes as they
  were; any other node is left exactly as it was, so that \<^verbatim>\<open>ignore_appear\<close> stays absent (or
  false) on it.
\<close>

theorem add_appear_ignore_attr_tags:
  assumes "\<forall>n \<in> fst ` set (nodes G). \<exists>a. map_of (nodes G) n = Some a \<and> attr_t a \<noteq> None \<and> attr_x a \<noteq> None"
  shows "\<exists>G'. add_appear_ignore_attr G = Inr G' \<and> edges G' = edges G
           \<and> map fst (nodes G') = map fst (nodes G)
           \<and> (\<forall>n a time pos_x. map_of (nodes G) n = Some a \<longrightarrow> attr_t a = Some time \<longrightarrow>
                 attr_x a = Some pos_x \<longrightarrow>
                 (\<exists>a'. map_of (nodes G') n = Some a'
                    \<and> a'\<lparr>attr_ignore_appear := attr_ignore_appear a\<rparr> = a
                    \<and> (if time = 0 \<or> 710 \<le> pos_x then attr_ignore_appear a' = Some True
                        else attr_ignore_appear a' = attr_ignore_appear a)))"
proof -
  have "\<forall>n \<in> set (map fst (nodes G)). \<exists>a. map_of (nodes G) n = Some a \<and> attr_t a \<noteq> None \<and> attr_x a \<noteq> None"
    using assms by simp
  from appear_loop_total[OF this] obtain G' where G': "add_appear_ignore_attr G = Inr G'"
    unfolding add_appear_ignore_attr_def by blast
  note post = appear_loop_post[OF G'[unfolded add_appear_ignore_attr_def]]
  have "\<exists>a'. map_of (nodes G') n = Some a'
          \<and> a'\<lparr>attr_ignore_appear := attr_ignore_appear a\<rparr> = a
          \<and> (if time = 0 \<or> 710 \<le> pos_x then attr_ignore_appear a' = Some True
              else attr_ignore_appear a' = attr_ignore_appear a)"
    if a: "map_of (nodes G) n = Some a" and t: "attr_t a = Some time" and x: "attr_x a = Some pos_x"
    for n a time pos_x
  proof -
    from a have "n \<in> set (map fst (nodes G))"
      by (metis map_of_eq_None_iff option.distinct(1) set_map)
    with post a have "map_of (nodes G') n = Some (tagged a)" by blast
    moreover have "(tagged a)\<lparr>attr_ignore_appear := attr_ignore_appear a\<rparr> = a"
      by (simp add: tagged_def)
    moreover have "if time = 0 \<or> 710 \<le> pos_x then attr_ignore_appear (tagged a) = Some True
              else attr_ignore_appear (tagged a) = attr_ignore_appear a"
      using t x by (simp add: tagged_def at_boundary_def)
    ultimately show ?thesis by blast
  qed
  with G' post show ?thesis by blast
qed

theorem add_appear_ignore_attr_tags_witness:
  "\<exists>G' a1 a2 a3. add_appear_ignore_attr appear_fixture = Inr G'
      \<and> map_of (nodes G') 1 = Some a1 \<and> attr_ignore_appear a1 = Some True
      \<and> map_of (nodes G') 2 = Some a2 \<and> attr_ignore_appear a2 = Some True
      \<and> map_of (nodes G') 3 = Some a3 \<and> attr_ignore_appear a3 = None"
proof -
  have h: "\<forall>n \<in> fst ` set (nodes appear_fixture).
             \<exists>a. map_of (nodes appear_fixture) n = Some a \<and> attr_t a \<noteq> None \<and> attr_x a \<noteq> None"
    by (simp add: appear_fixture_def no_node_attrs_def)
  from add_appear_ignore_attr_tags[OF h] obtain G' where
    G': "add_appear_ignore_attr appear_fixture = Inr G'"
    and v: "\<And>n a time pos_x. map_of (nodes appear_fixture) n = Some a \<Longrightarrow> attr_t a = Some time \<Longrightarrow>
                 attr_x a = Some pos_x \<Longrightarrow>
                 (\<exists>a'. map_of (nodes G') n = Some a'
                    \<and> a'\<lparr>attr_ignore_appear := attr_ignore_appear a\<rparr> = a
                    \<and> (if time = 0 \<or> 710 \<le> pos_x then attr_ignore_appear a' = Some True
                        else attr_ignore_appear a' = attr_ignore_appear a))"
    by blast
  from v[of 1 _ 0 5] obtain a1 where "map_of (nodes G') 1 = Some a1" "attr_ignore_appear a1 = Some True"
    by (auto simp: appear_fixture_def no_node_attrs_def)
  moreover from v[of 2 _ 4 710] obtain a2 where "map_of (nodes G') 2 = Some a2" "attr_ignore_appear a2 = Some True"
    by (auto simp: appear_fixture_def no_node_attrs_def)
  moreover from v[of 3 _ 4 709] obtain a3 where "map_of (nodes G') 3 = Some a3" "attr_ignore_appear a3 = None"
    by (auto simp: appear_fixture_def no_node_attrs_def)
  ultimately show ?thesis using G' by blast
qed

subsection \<open>Candidate edges\<close>

lemma gap_frame_dict:
  "compute_node_frame_dict gap_fixture = Inr [(0, [1]), (2, [2]), (3, [3])]"
  by (simp add: compute_node_frame_dict_def gap_fixture_def frame_dict_body_def no_node_attrs_def
        attr_def getitem_def)

lemma gap_kdtree:
  "create_kdtree gap_fixture [n] = (if n \<in> {1, 2, 3} then Inr [(0, 0)] else Inl KeyError)"
  by (simp add: create_kdtree_def gap_fixture_def no_node_attrs_def attr_def getitem_def)

text \<open>
  Claim C1 (every added edge joins frame \<open>t\<close> to frame \<open>t + 1\<close>, and no edge is added across
  a gap). The \<^verbatim>\<open>continue\<close> taken at a frame without a successor skips the update of
  \<^verbatim>\<open>prev_node_ids\<close>, so the next frame that has a successor is linked from the stale
  previous frame: with detections in frames 0, 2 and 3 the only edge added goes from the node
  of frame 0 to the node of frame 3, and the adjacent frames 2 and 3 get no edge.
\<close>

theorem add_cand_edges_links_across_gap:
  "add_cand_edges gap_fixture 50 = Inr (gap_fixture\<lparr>edges := [((1, 3), no_edge_attrs)]\<rparr>)
   \<and> frame_of gap_fixture 1 = Some 0 \<and> frame_of gap_fixture 3 = Some 3"
proof -
  have "add_cand_edges gap_fixture 50 = Inr (gap_fixture\<lparr>edges := [((1, 3), no_edge_attrs)]\<rparr>)"
    by (simp add: add_cand_edges_def gap_frame_dict np_index_def np_position_def getitem_def gap_kdtree
          cand_edges_body_def query_ball_tree_def distance_def linalg_norm_def link_body_def
          add_edge_def)
       (simp add: gap_fixture_def)
  moreover have "frame_of gap_fixture 1 = Some 0 \<and> frame_of gap_fixture 3 = Some 3"
    by (simp add: frame_of_def gap_fixture_def no_node_attrs_def)
  ultimately show ?thesis by simp
qed

subsection \<open>Ground-truth annotation\<close>

lemma for_loop_append:
  "for_loop (xs @ ys) body s = bind (for_loop xs body s) (for_loop ys body)"
  by (induction xs arbitrary: s) (auto simp: bind_def split: sum.splits)

lemma for_loop_preserves:
  assumes "for_loop xs body s = Inr s'" and "P s"
    and "\<And>x u u'. x \<in> set xs \<Longrightarrow> P u \<Longrightarrow> body x u = Inr u' \<Longrightarrow> P u'"
  shows "P s'"
  using assms
proof (induction xs arbitrary: s)
  case Nil
  then show ?case by simp
next
  case (Cons x xs)
  from Cons.prems(1) obtain u where u: "body x s = Inr u" and r: "for_loop xs body u = Inr s'"
    by (auto simp: bind_eq_Inr)
  have "P u" by (rule Cons.prems(3)[of x, OF _ Cons.prems(2) u]) simp
  moreover have "\<And>y v v'. y \<in> set xs \<Longrightarrow> P v \<Longrightarrow> body y v = Inr v' \<Longrightarrow> P v'"
    using Cons.prems(3) by (meson list.set_intros(2))
  ultimately show ?case using Cons.IH[OF r] by blast
qed

lemma for_loop_visits:
  assumes "for_loop xs body s = Inr s'" and "x \<in> set xs"
  shows "\<exists>ys zs u u'. xs = ys @ x # zs \<and> for_loop ys body s = Inr u \<and> body x u = Inr u'
           \<and> for_loop zs body u' = Inr s'"
proof -
  from assms(2) obtain ys zs where xs: "xs = ys @ x # zs" by (auto dest: split_list)
  with assms(1) show ?thesis
    by (auto simp: for_loop_append bind_eq_Inr)
qed

lemma get_cand_id_inside:
  assumes "map_of (nodes gt_track) gt_node = Some data"
    and "attr_t data = Some t" and "attr_x data = Some x" and "attr_y data = Some y"
    and "0 \<le> t" and "nat t < length seg"
    and "0 \<le> x" and "nat \<lfloor>x\<rfloor> < length (seg ! nat t)"
    and "0 \<le> y" and "nat \<lfloor>y\<rfloor> < length (seg ! nat t ! nat \<lfloor>x\<rfloor>)"
  shows "get_cand_id gt_node gt_track seg = Inr (seg ! nat t ! nat \<lfloor>x\<rfloor> ! nat \<lfloor>y\<rfloor>)"
proof -
  have t: "np_index seg t = Inr (seg ! nat t)"
    using assms(5,6) by (auto simp: np_index_def np_position_def Let_def)
  have x: "np_index (seg ! nat t) (py_int x) = Inr (seg ! nat t ! nat \<lfloor>x\<rfloor>)"
    using assms(7,8) by (auto simp: np_index_def np_position_def Let_def py_int_def)
  have y: "np_index (seg ! nat t ! nat \<lfloor>x\<rfloor>) (py_int y) = Inr (seg ! nat t ! nat \<lfloor>x\<rfloor> ! nat \<lfloor>y\<rfloor>)"
    using assms(9,10) by (auto simp: np_index_def np_position_def Let_def py_int_def)
  show ?thesis
    using assms(1-4) by (simp add: get_cand_id_def getitem_def attr_def t x y)
qed

lemma set_node_attr_Inr:
  "set_node_attr G n upd = Inr G' \<longleftrightarrow>
     (\<exists>a. map_of (nodes G) n = Some a \<and> G' = G\<lparr>nodes := AList.update n (upd a) (nodes G)\<rparr>)"
  by (auto simp: set_node_attr_def bind_eq_Inr getitem_eq_Inr)

lemma set_edge_attr_nodes: "set_edge_attr G e upd = Inr G' \<Longrightarrow> nodes G' = nodes G"
  by (auto simp: set_edge_attr_def bind_eq_Inr)

lemma gt_succ_loop_nodes:
  "for_loop succs (gt_succ_body c ms) G = Inr G' \<Longrightarrow> nodes G' = nodes G"
proof -
  assume a: "for_loop succs (gt_succ_body c ms) G = Inr G'"
  show ?thesis
    by (rule for_loop_preserves[OF a, where P = "\<lambda>u. nodes u = nodes G"])
       (auto simp: gt_succ_body_def dest: set_edge_attr_nodes split: if_splits)
qed

lemma gt_marked_update:
  "gt_marked (G\<lparr>nodes := AList.update n (a\<lparr>attr_gt := Some True\<rparr>) (nodes G)\<rparr>) c
     \<longleftrightarrow> c = n \<or> gt_marked G c"
  by (simp add: gt_marked_def update_conv')

lemma gt_body_cases:
  assumes "gt_body gt seg n G = Inr G'"
  shows "\<exists>c. get_cand_id n gt seg = Inr c
           \<and> (if c \<noteq> 0 \<and> map_of (nodes G) c \<noteq> None
               then \<exists>a. map_of (nodes G) c = Some a
                      \<and> nodes G' = AList.update c (a\<lparr>attr_gt := Some True\<rparr>) (nodes G)
               else G' = G)"
proof -
  from assms obtain c where c: "get_cand_id n gt seg = Inr c" 
    and rest: "(if c \<noteq> 0 then
       if map_of (nodes G) c \<noteq> None then
         bind (set_node_attr G c (\<lambda>a. a\<lparr>attr_gt := Some True\<rparr>)) (\<lambda>G1.
         let gt_succs = successors gt n in
         bind (map_result (\<lambda>gt_succ. get_cand_id gt_succ gt seg) gt_succs)
           (\<lambda>gt_succ_matches.
         let cand_succs = successors G1 c in
         for_loop cand_succs (gt_succ_body c gt_succ_matches) G1))
       else Inr G
     else Inr G) = Inr G'"
    unfolding gt_body_def bind_eq_Inr by blast
  show ?thesis
  proof (cases "c \<noteq> 0 \<and> map_of (nodes G) c \<noteq> None")
    case False
    with rest have "G' = G" by (auto split: if_splits)
    with c False show ?thesis by auto
  next
    case True
    with rest obtain G1 ms where G1: "set_node_attr G c (\<lambda>a. a\<lparr>attr_gt := Some True\<rparr>) = Inr G1"
      and l: "for_loop (successors G1 c) (gt_succ_body c ms) G1 = Inr G'"
      by (auto simp: bind_eq_Inr Let_def)
    from G1 obtain a where a: "map_of (nodes G) c = Some a"
      and "G1 = G\<lparr>nodes := AList.update c (a\<lparr>attr_gt := Some True\<rparr>) (nodes G)\<rparr>"
      by (auto simp: set_node_attr_Inr)
    moreover from l have "nodes G' = nodes G1" by (rule gt_succ_loop_nodes)
    ultimately show ?thesis using c True by auto
  qed
qed

lemma gt_body_keeps:
  assumes "gt_body gt seg n G = Inr G'"
  shows "(gt_marked G c \<longrightarrow> gt_marked G' c)
       \<and> (map_of (nodes G) c \<noteq> None \<longrightarrow> map_of (nodes G') c \<noteq> None)"
  using gt_body_cases[OF assms]
  by (auto simp: gt_marked_def update_conv' split: if_splits option.splits)

lemma gt_default_body_keeps:
  assumes "gt_default_body n G = Inr G'"
  shows "gt_marked G c \<longrightarrow> gt_marked G' c"
  using assms
  by (auto simp: gt_default_body_def bind_eq_Inr getitem_eq_Inr set_node_attr_Inr gt_marked_def
        update_conv' split: if_splits option.splits)

text \<open>
  Claim C3, as amended. The source converts the coordinates with \<^verbatim>\<open>int\<close>, which drops the
  fractional part. For a ground-truth node inside the volume the candidate id is the label at
  \<open>(t, \<lfloor>x\<rfloor>, \<lfloor>y\<rfloor>)\<close>, and when that label is not 0 and is a node of the candidate graph, the
  annotation marks that node \<^verbatim>\<open>gt = True\<close>.
\<close>

theorem add_gt_annotations_samples_truncated:
  assumes "add_gt_annotations gt_tracks cand_graph seg = Inr G'"
    and "map_of (nodes gt_tracks) gt_node = Some data"
    and "attr_t data = Some t" and "attr_x data = Some x" and "attr_y data = Some y"
    and "0 \<le> t" and "nat t < length seg"
    and "0 \<le> x" and "nat \<lfloor>x\<rfloor> < length (seg ! nat t)"
    and "0 \<le> y" and "nat \<lfloor>y\<rfloor> < length (seg ! nat t ! nat \<lfloor>x\<rfloor>)"
    and "cand_id = seg ! nat t ! nat \<lfloor>x\<rfloor> ! nat \<lfloor>y\<rfloor>"
  shows "get_cand_id gt_node gt_tracks seg = Inr cand_id
       \<and> (cand_id \<noteq> 0 \<and> map_of (nodes cand_graph) cand_id \<noteq> None \<longrightarrow> gt_marked G' cand_id)"
proof -
  have c: "get_cand_id gt_node gt_tracks seg = Inr cand_id"
    using get_cand_id_inside[OF assms(2-11)] assms(12) by simp
  have "gt_marked G' cand_id" if nz: "cand_id \<noteq> 0" and dom: "map_of (nodes cand_graph) cand_id \<noteq> None"
  proof -
    from assms(1) obtain G1 where
      l1: "for_loop (map fst (nodes gt_tracks)) (gt_body gt_tracks seg) cand_graph = Inr G1"
      and l2: "for_loop (map fst (nodes G1)) gt_default_body G1 = Inr G'"
      by (auto simp: add_gt_annotations_def bind_eq_Inr)
    have "gt_node \<in> set (map fst (nodes gt_tracks))"
      using assms(2) by (metis map_of_eq_None_iff option.distinct(1) set_map)
    from for_loop_visits[OF l1 this] obtain ys zs u u' where
      xs: "map fst (nodes gt_tracks) = ys @ gt_node # zs"
      and a: "for_loop ys (gt_body gt_tracks seg) cand_graph = Inr u"
      and b: "gt_body gt_tracks seg gt_node u = Inr u'"
      and d: "for_loop zs (gt_body gt_tracks seg) u' = Inr G1"
      by blast
    have "map_of (nodes u) cand_id \<noteq> None"
    proof (rule for_loop_preserves[OF a, where P = "\<lambda>G. map_of (nodes G) cand_id \<noteq> None"])
      show "map_of (nodes cand_graph) cand_id \<noteq> None" by (rule dom)
    next
      fix m v v'
      assume "map_of (nodes v) cand_id \<noteq> None" "gt_body gt_tracks seg m v = Inr v'"
      then show "map_of (nodes v') cand_id \<noteq> None" using gt_body_keeps by blast
    qed
    with gt_body_cases[OF b] c nz have u': "gt_marked u' cand_id"
      by (auto simp: gt_marked_def update_conv')
    have G1: "gt_marked G1 cand_id"
    proof (rule for_loop_preserves[OF d, where P = "\<lambda>G. gt_marked G cand_id"])
      show "gt_marked u' cand_id" by (rule u')
    next
      fix m v v'
      assume "gt_marked v cand_id" "gt_body gt_tracks seg m v = Inr v'"
      then show "gt_marked v' cand_id" using gt_body_keeps by blast
    qed
    show ?thesis
    proof (rule for_loop_preserves[OF l2, where P = "\<lambda>G. gt_marked G cand_id"])
      show "gt_marked G1 cand_id" by (rule G1)
    next
      fix m v v'
      assume "gt_marked v cand_id" "gt_default_body m v = Inr v'"
      then show "gt_marked v' cand_id" using gt_default_body_keeps by blast
    qed
  qed
  with c show ?thesis by blast
qed

lemma fixture_annotations:
  "add_gt_annotations gt_fixture cand_fixture seg_fixture =
     Inr (cand_fixture\<lparr>nodes :=
       [(5, no_node_attrs\<lparr>attr_t := Some 0, attr_x := Some 2, attr_y := Some 0, attr_gt := Some True\<rparr>),
        (7, no_node_attrs\<lparr>attr_t := Some 0, attr_x := Some 3, attr_y := Some 0, attr_gt := Some False\<rparr>)]\<rparr>)"
  by (simp add: add_gt_annotations_def gt_body_def get_cand_id_def gt_fixture_def seg_fixture_def
        cand_fixture_def getitem_def attr_def no_node_attrs_def np_index_def np_position_def py_int_def
        set_node_attr_def successors_def gt_default_body_def)

theorem add_gt_annotations_samples_truncated_witness:
  "get_cand_id 1 gt_fixture seg_fixture = Inr 5
   \<and> gt_marked (cand_fixture\<lparr>nodes :=
       [(5, no_node_attrs\<lparr>attr_t := Some 0, attr_x := Some 2, attr_y := Some 0, attr_gt := Some True\<rparr>),
        (7, no_node_attrs\<lparr>attr_t := Some 0, attr_x := Some 3, attr_y := Some 0, attr_gt := Some False\<rparr>)]\<rparr>) 5"
proof -
  let ?data = "no_node_attrs\<lparr>attr_t := Some 0, attr_x := Some (27 / 10), attr_y := Some 0\<rparr>"
  have fl: "\<lfloor>27 / 10 :: real\<rfloor> = 2" by simp
  have h2: "map_of (nodes gt_fixture) 1 = Some ?data" by (simp add: gt_fixture_def)
  have h3: "attr_t ?data = Some 0" "attr_x ?data = Some (27 / 10)" "attr_y ?data = Some 0"
    by (simp_all add: no_node_attrs_def)
  have h6: "(0::int) \<le> 0" "nat 0 < length seg_fixture" by (simp_all add: seg_fixture_def)
  have h8: "(0::real) \<le> 27 / 10" "nat \<lfloor>27 / 10 :: real\<rfloor> < length (seg_fixture ! nat 0)"
    unfolding fl by (simp_all add: seg_fixture_def)
  have h10: "(0::real) \<le> 0" "nat \<lfloor>0 :: real\<rfloor> < length (seg_fixture ! nat 0 ! nat \<lfloor>27 / 10 :: real\<rfloor>)"
    unfolding fl by (simp_all add: seg_fixture_def)
  have h12: "5 = seg_fixture ! nat 0 ! nat \<lfloor>27 / 10 :: real\<rfloor> ! nat \<lfloor>0 :: real\<rfloor>"
    unfolding fl by (simp add: seg_fixture_def)
  have dom: "(5::int) \<noteq> 0 \<and> map_of (nodes cand_fixture) 5 \<noteq> None"
    by (simp add: cand_fixture_def)
  from add_gt_annotations_samples_truncated[OF fixture_annotations h2 h3 h6 h8 h10 h12] dom
  show ?thesis by blast
qed

text \<open>
  Claim C3, as stated (the array is sampled at the rounded coordinates), fails: for the
  ground-truth point at \<open>x = 2.7\<close> the source reads row 2 and finds detection 5, while the
  rounded coordinate is row 3, which belongs to detection 7.
\<close>

theorem get_cand_id_not_rounded:
  "get_cand_id 1 gt_fixture seg_fixture = Inr 5
   \<and> get_cand_id_rounded 1 gt_fixture seg_fixture = Inr 7"
  by (simp add: get_cand_id_def get_cand_id_rounded_def gt_fixture_def seg_fixture_def
        getitem_def attr_def no_node_attrs_def np_index_def np_position_def py_int_def round_def)

subsection \<open>Reading the ground-truth tracks\<close>

lemma map_of_add_node:
  "map_of (nodes (add_node G n upd)) =
     (map_of (nodes G))(n \<mapsto> upd (case map_of (nodes G) n of None \<Rightarrow> no_node_attrs | Some a \<Rightarrow> a))"
  by (simp add: add_node_def update_conv')

lemma keys_add_node: "set (map fst (nodes (add_node G n upd))) = insert n (set (map fst (nodes G)))"
  using dom_update[of n _ "nodes G"] by (simp add: add_node_def)

lemma distinct_add_node:
  "distinct (map fst (nodes G)) \<Longrightarrow> distinct (map fst (nodes (add_node G n upd)))"
  by (simp add: add_node_def distinct_update)

lemma nodes_add_edge:
  "nodes (add_edge G u v) =
     nodes (if map_of (nodes (if map_of (nodes G) u = None then add_node G u id else G)) v = None
            then add_node (if map_of (nodes G) u = None then add_node G u id else G) v id
            else (if map_of (nodes G) u = None then add_node G u id else G))"
proof -
  have aux: "nodes (if c then H\<lparr>edges := es\<rparr> else H) = nodes H" for c H es
    by simp
  show ?thesis unfolding add_edge_def Let_def by (rule aux)
qed

lemma map_of_add_edge:
  "map_of (nodes (add_edge G u v)) j =
     (if map_of (nodes G) j \<noteq> None then map_of (nodes G) j
      else if j = u \<or> j = v then Some no_node_attrs else None)"
proof -
  define G1 where "G1 = (if map_of (nodes G) u = None then add_node G u id else G)"
  have m1: "map_of (nodes G1) j =
     (if map_of (nodes G) j \<noteq> None then map_of (nodes G) j
      else if j = u then Some no_node_attrs else None)" for j
    by (simp add: G1_def map_of_add_node)
  have "map_of (nodes (add_edge G u v)) j =
          map_of (nodes (if map_of (nodes G1) v = None then add_node G1 v id else G1)) j"
    unfolding nodes_add_edge G1_def ..
  also have "\<dots> = (if map_of (nodes G1) j \<noteq> None then map_of (nodes G1) j
      else if j = v then Some no_node_attrs else None)"
    by (simp add: map_of_add_node)
  finally show ?thesis by (simp add: m1)
qed

lemma keys_add_edge:
  "set (map fst (nodes (add_edge G u v))) = insert u (insert v (set (map fst (nodes G))))"
proof -
  have present: "n \<in> set (map fst (nodes H))" if "map_of (nodes H) n \<noteq> None" for n H
    using that by (auto simp: map_of_eq_None_iff)
  define G1 where "G1 = (if map_of (nodes G) u = None then add_node G u id else G)"
  define G2 where "G2 = (if map_of (nodes G1) v = None then add_node G1 v id else G1)"
  have k1: "set (map fst (nodes G1)) = insert u (set (map fst (nodes G)))"
    using present[of G u] by (auto simp: G1_def keys_add_node simp del: set_map)
  have k2: "set (map fst (nodes G2)) = insert v (set (map fst (nodes G1)))"
    using present[of G1 v] by (auto simp: G2_def keys_add_node simp del: set_map)
  have "nodes (add_edge G u v) = nodes G2"
    unfolding nodes_add_edge G2_def G1_def ..
  then show ?thesis using k1 k2 by auto
qed

lemma distinct_add_edge:
  "distinct (map fst (nodes G)) \<Longrightarrow> distinct (map fst (nodes (add_edge G u v)))"
  unfolding nodes_add_edge by (simp add: distinct_add_node)

lemma store_row_own:
  "\<exists>a. map_of (nodes (store_row r G)) (row_id r) = Some a \<and> attr_t a = Some (row_time r)
      \<and> attr_x a = Some (row_x r) \<and> attr_y a = Some (row_y r)"
  by (simp add: store_row_def Let_def map_of_add_edge map_of_add_node)

lemma store_row_other:
  "j \<noteq> row_id r \<Longrightarrow> map_of (nodes G) j = Some a \<Longrightarrow> map_of (nodes (store_row r G)) j = Some a"
  by (simp add: store_row_def Let_def map_of_add_edge map_of_add_node)

lemma store_row_keys:
  "set (map fst (nodes (store_row r G))) =
     set (map fst (nodes G)) \<union> {row_id r} \<union> (if row_parent_id r \<noteq> - 1 then {row_parent_id r} else {})"
  by (auto simp: store_row_def Let_def keys_add_edge keys_add_node simp del: set_map)

lemma store_row_distinct:
  "distinct (map fst (nodes G)) \<Longrightarrow> distinct (map fst (nodes (store_row r G)))"
  by (simp add: store_row_def Let_def distinct_add_edge distinct_add_node)

lemma read_loop_foldl:
  "map_result (parse_row to_int to_float) rows = Inr parsed \<Longrightarrow>
   for_loop rows (read_row_body to_int to_float) G = Inr (foldl (\<lambda>G r. store_row r G) G parsed)"
proof (induction rows arbitrary: parsed G)
  case Nil
  then show ?case by simp
next
  case (Cons row rows)
  from Cons.prems obtain r rs where r: "parse_row to_int to_float row = Inr r"
    and rs: "map_result (parse_row to_int to_float) rows = Inr rs" and p: "parsed = r # rs"
    by (auto simp: bind_eq_Inr)
  show ?case using Cons.IH[OF rs] r p by (simp add: read_row_body_def)
qed

lemma stored_rows:
  fixes parsed :: "gt_row list"
  defines "G \<equiv> foldl (\<lambda>G r. store_row r G) DiGraph parsed"
  shows "distinct (map fst (nodes G))"
    and "set (map fst (nodes G)) =
           row_id ` set parsed \<union> {row_parent_id r |r. r \<in> set parsed \<and> row_parent_id r \<noteq> - 1}"
    and "\<And>before r after. parsed = before @ r # after \<Longrightarrow> \<forall>r' \<in> set after. row_id r' \<noteq> row_id r \<Longrightarrow>
           \<exists>a. map_of (nodes G) (row_id r) = Some a \<and> attr_t a = Some (row_time r)
              \<and> attr_x a = Some (row_x r) \<and> attr_y a = Some (row_y r)"
proof -
  show "distinct (map fst (nodes G))" unfolding G_def
    by (induction parsed rule: rev_induct) (simp_all add: DiGraph_def store_row_distinct)
  show "set (map fst (nodes G)) =
           row_id ` set parsed \<union> {row_parent_id r |r. r \<in> set parsed \<and> row_parent_id r \<noteq> - 1}"
    unfolding G_def
  proof (induction parsed rule: rev_induct)
    case Nil
    then show ?case by (simp add: DiGraph_def)
  next
    case (snoc r rs)
    show ?case unfolding foldl_append foldl_Cons foldl_Nil store_row_keys snoc.IH
      by auto
  qed
  show "\<exists>a. map_of (nodes G) (row_id r) = Some a \<and> attr_t a = Some (row_time r)
              \<and> attr_x a = Some (row_x r) \<and> attr_y a = Some (row_y r)"
    if "parsed = before @ r # after" and "\<forall>r' \<in> set after. row_id r' \<noteq> row_id r"
    for before r after
    using that(2) unfolding G_def that(1)
  proof (induction after rule: rev_induct)
    case Nil
    show ?case using store_row_own by simp
  next
    case (snoc r' rs)
    then obtain a where a: "map_of (nodes (foldl (\<lambda>G r. store_row r G) DiGraph (before @ r # rs))) (row_id r) = Some a"
      "attr_t a = Some (row_time r)" "attr_x a = Some (row_x r)" "attr_y a = Some (row_y r)"
      by auto
    from snoc.prems have "row_id r \<noteq> row_id r'" by auto
    from store_row_other[OF this a(1)] a(2-4) show ?case
      by (simp flip: append_Cons append_assoc)
  qed
qed

text \<open>
  Claim C4, as amended. The loader has no check for a repeated id: whenever every field of
  every row converts, the call succeeds, also on a table with repeated ids. The graph has one
  node for every id that occurs (as an id, or as a parent), and the node of an id carries the
  \<open>t\<close>, \<open>x\<close> and \<open>y\<close> of the last row with that id: earlier rows are overwritten.
\<close>

theorem read_gt_tracks_last_row_wins:
  assumes "map_result (parse_row to_int to_float) rows = Inr parsed"
  shows "\<exists>G. read_gt_tracks to_int to_float rows = Inr G
           \<and> distinct (map fst (nodes G))
           \<and> set (map fst (nodes G)) =
               row_id ` set parsed \<union> {row_parent_id r |r. r \<in> set parsed \<and> row_parent_id r \<noteq> - 1}
           \<and> (\<forall>before r after. parsed = before @ r # after \<longrightarrow>
                 (\<forall>r' \<in> set after. row_id r' \<noteq> row_id r) \<longrightarrow>
                 (\<exists>a. map_of (nodes G) (row_id r) = Some a \<and> attr_t a = Some (row_time r)
                    \<and> attr_x a = Some (row_x r) \<and> attr_y a = Some (row_y r)))"
  unfolding read_gt_tracks_def read_loop_foldl[OF assms]
  using stored_rows[of parsed] by blast

lemma duplicate_rows_parse:
  "map_result (parse_row int_literal float_literal) duplicate_rows =
     Inr [\<lparr>row_id = 1, row_x = 10, row_y = 20, row_time = 0, row_parent_id = - 1\<rparr>,
          \<lparr>row_id = 1, row_x = 30, row_y = 40, row_time = 5, row_parent_id = - 1\<rparr>]"
  by (simp add: parse_row_def duplicate_rows_def getitem_def int_literal_def float_literal_def
        digits_value_def digit_of_def)

theorem read_gt_tracks_last_row_wins_witness:
  "\<exists>G a. read_gt_tracks int_literal float_literal duplicate_rows = Inr G
      \<and> set (map fst (nodes G)) = {1}
      \<and> map_of (nodes G) 1 = Some a \<and> attr_t a = Some 5 \<and> attr_x a = Some 30 \<and> attr_y a = Some 40"
proof -
  let ?r1 = "\<lparr>row_id = 1, row_x = 10, row_y = 20, row_time = 0, row_parent_id = - 1\<rparr>"
  let ?r2 = "\<lparr>row_id = 1, row_x = 30, row_y = 40, row_time = 5, row_parent_id = - 1\<rparr>"
  from read_gt_tracks_last_row_wins[OF duplicate_rows_parse] obtain G where
    G: "read_gt_tracks int_literal float_literal duplicate_rows = Inr G"
    and k: "set (map fst (nodes G)) =
               row_id ` set [?r1, ?r2] \<union> {row_parent_id r |r. r \<in> set [?r1, ?r2] \<and> row_parent_id r \<noteq> - 1}"
    and l: "\<And>before r after. [?r1, ?r2] = before @ r # after \<Longrightarrow>
                 (\<forall>r' \<in> set after. row_id r' \<noteq> row_id r) \<Longrightarrow>
                 (\<exists>a. map_of (nodes G) (row_id r) = Some a \<and> attr_t a = Some (row_time r)
                    \<and> attr_x a = Some (row_x r) \<and> attr_y a = Some (row_y r))"
    by blast
  from l[of "[?r1]" ?r2 "[]"] obtain a where
    "map_of (nodes G) 1 = Some a" "attr_t a = Some 5" "attr_x a = Some 30" "attr_y a = Some 40"
    by auto
  moreover from k have "set (map fst (nodes G)) = {1}" by auto
  ultimately show ?thesis using G by blast
qed

text \<open>
  Claim C4, as stated (two rows with the same id make the loader fail), fails: the table with
  two rows for the id 1 is read without an error, and the single node 1 carries the attributes
  of the second row only.
\<close>

theorem read_gt_tracks_accepts_duplicate_id:
  "read_gt_tracks int_literal float_literal duplicate_rows =
     Inr \<lparr>nodes = [(1, no_node_attrs\<lparr>attr_t := Some 5, attr_x := Some 30, attr_y := Some 40\<rparr>)],
          edges = []\<rparr>"
  by (simp add: read_gt_tracks_def read_row_body_def parse_row_def duplicate_rows_def getitem_def
        int_literal_def float_literal_def digits_value_def digit_of_def store_row_def add_node_def
        DiGraph_def no_node_attrs_def)

section \<open>Properties of the relabelling\<close>

subsection \<open>Tracklet ids\<close>

lemma map_of_map_values:
  "map_of (map (\<lambda>item. (fst item, f item)) al) n
     = (case map_of al n of None \<Rightarrow> None | Some a \<Rightarrow> Some (f (n, a)))"
  by (induction al) auto

lemma chain_step_grows: "set S \<subseteq> set (chain_step es S)"
  by (auto simp: chain_step_def)

lemma chain_funpow_grows: "set S \<subseteq> set ((chain_step es ^^ k) S)"
proof (induction k)
  case 0
  then show ?case by simp
next
  case (Suc k)
  then show ?case using chain_step_grows[of "(chain_step es ^^ k) S" es] by auto
qed

lemma chain_of_self: "n \<in> set (chain_of G n)"
  using chain_funpow_grows[of "[n]"] by (auto simp: chain_of_def)

lemma map_of_constant_keys:
  "map_of (map (\<lambda>m. (m, v)) zs) n = (if n \<in> set zs then Some v else None)"
  by (induction zs) auto

lemma number_chains_covers:
  "n \<in> set ns \<or> map_of assigned n \<noteq> None \<Longrightarrow> map_of (number_chains G ns assigned k) n \<noteq> None"
proof (induction ns arbitrary: assigned k)
  case Nil
  then show ?case by simp
next
  case (Cons m ns)
  show ?case
  proof (cases "map_of assigned m \<noteq> None")
    case True
    with Cons.prems have "n \<in> set ns \<or> map_of assigned n \<noteq> None" by auto
    from Cons.IH[OF this] True show ?thesis by simp
  next
    case False
    let ?assigned = "assigned @ map (\<lambda>j. (j, k)) (chain_of G m)"
    have "n \<in> set ns \<or> map_of ?assigned n \<noteq> None"
      using Cons.prems chain_of_self[of m G]
      by (auto simp: map_add_def map_of_constant_keys split: option.splits)
    from Cons.IH[OF this] False show ?thesis by simp
  qed
qed

lemma tracklet_ids_cover:
  "n \<in> set (map fst (nodes G)) \<Longrightarrow> map_of (tracklet_ids G) n \<noteq> None"
  unfolding tracklet_ids_def by (rule number_chains_covers) simp

lemma assign_tracklet_ids_keys [simp]:
  "map fst (nodes (assign_tracklet_ids G)) = map fst (nodes G)"
  by (simp add: assign_tracklet_ids_def comp_def)

lemma assign_tracklet_ids_edges [simp]: "edges (assign_tracklet_ids G) = edges G"
  by (simp add: assign_tracklet_ids_def)

lemma assign_tracklet_ids_node:
  assumes "map_of (nodes G) n = Some a"
  shows "\<exists>track_id. map_of (nodes (assign_tracklet_ids G)) n = Some (a\<lparr>attr_tracklet_id := Some track_id\<rparr>)"
proof -
  from assms have "n \<in> set (map fst (nodes G))"
    by (metis map_of_eq_None_iff option.distinct(1) set_map)
  from tracklet_ids_cover[OF this] obtain k where "map_of (tracklet_ids G) n = Some k" by auto
  with assms have "map_of (nodes (assign_tracklet_ids G)) n = Some (a\<lparr>attr_tracklet_id := Some k\<rparr>)"
    by (simp add: assign_tracklet_ids_def map_of_map_values)
  then show ?thesis by blast
qed

lemma assign_tracklet_ids_all:
  assumes "(n, a) \<in> set (nodes (assign_tracklet_ids G))"
  shows "attr_tracklet_id a \<noteq> None"
proof -
  from assms obtain item where item: "item \<in> set (nodes G)" and n: "n = fst item"
    and a: "a = (case map_of (tracklet_ids G) (fst item) of None \<Rightarrow> snd item
                 | Some track_id \<Rightarrow> (snd item)\<lparr>attr_tracklet_id := Some track_id\<rparr>)"
    unfolding assign_tracklet_ids_def by auto
  from item n have "n \<in> set (map fst (nodes G))" by simp
  from tracklet_ids_cover[OF this] a n show ?thesis by auto
qed

lemma frame_of_assign [simp]: "frame_of (assign_tracklet_ids G) n = frame_of G n"
proof (cases "map_of (nodes G) n")
  case None
  then show ?thesis
    by (simp add: frame_of_def assign_tracklet_ids_def map_of_map_values)
next
  case (Some a)
  from assign_tracklet_ids_node[OF this] Some show ?thesis
    by (auto simp: frame_of_def)
qed

lemma tracklet_of_assign:
  "map_of (nodes G) n \<noteq> None \<Longrightarrow> tracklet_of (assign_tracklet_ids G) n \<noteq> None"
  using assign_tracklet_ids_node[of G n] by (auto simp: tracklet_of_def)

subsection \<open>Arrays\<close>

lemma shape_zeros_like [simp]: "shape (zeros_like a) = shape a"
  by (simp add: shape_def zeros_like_def comp_def)

lemma zeros_like_pixel: "inside a f i j \<Longrightarrow> zeros_like a ! f ! i ! j = 0"
  by (simp add: zeros_like_def inside_def)

lemma shape_eq_length: "shape a = shape b \<Longrightarrow> length a = length b"
  using map_eq_imp_length_eq[of "map length" a "map length" b] by (simp add: shape_def)

lemma shape_eq_frame:
  assumes "shape a = shape b" and "f < length a"
  shows "map length (a ! f) = map length (b ! f)"
proof -
  have "f < length b" using shape_eq_length[OF assms(1)] assms(2) by simp
  have "shape a ! f = shape b ! f" using assms(1) by simp
  then show ?thesis using assms(2) \<open>f < length b\<close> by (simp add: shape_def)
qed

lemma shape_eq_inside: "shape a = shape b \<Longrightarrow> inside a f i j = inside b f i j"
proof -
  assume s: "shape a = shape b"
  have l: "length a = length b" using s by (rule shape_eq_length)
  show ?thesis
  proof (cases "f < length a")
    case False
    then show ?thesis using l by (simp add: inside_def)
  next
    case True
    have m: "map length (a ! f) = map length (b ! f)" by (rule shape_eq_frame[OF s True])
    have l2: "length (a ! f) = length (b ! f)" by (rule map_eq_imp_length_eq[OF m])
    show ?thesis
    proof (cases "i < length (a ! f)")
      case False
      then show ?thesis using l l2 by (auto simp: inside_def)
    next
      case i: True
      have "map length (a ! f) ! i = map length (b ! f) ! i" using m by simp
      then have "length (a ! f ! i) = length (b ! f ! i)" using i l2 by simp
      then show ?thesis using l l2 by (auto simp: inside_def)
    qed
  qed
qed

lemma masked_fill_lengths:
  assumes "map length F = map length S"
  shows "map length (masked_fill F (equals_mask S n) v) = map length F"
proof -
  have l: "length F = length S" by (rule map_eq_imp_length_eq[OF assms])
  show ?thesis
  proof (rule nth_equalityI)
    show "length (map length (masked_fill F (equals_mask S n) v)) = length (map length F)"
      using l by (simp add: masked_fill_def equals_mask_def)
  next
    fix i assume "i < length (map length (masked_fill F (equals_mask S n) v))"
    then have i: "i < length F" "i < length S" using l by (simp_all add: masked_fill_def equals_mask_def)
    have "map length F ! i = map length S ! i" using assms by simp
    then have "length (F ! i) = length (S ! i)" using i by simp
    then show "map length (masked_fill F (equals_mask S n) v) ! i = map length F ! i"
      using i by (simp add: masked_fill_def equals_mask_def)
  qed
qed

lemma masked_fill_pixel:
  assumes "map length F = map length S" and "i < length F" and "j < length (F ! i)"
  shows "masked_fill F (equals_mask S n) v ! i ! j = (if S ! i ! j = n then v else F ! i ! j)"
proof -
  have l: "length F = length S" by (rule map_eq_imp_length_eq[OF assms(1)])
  have "map length F ! i = map length S ! i" using assms(1) by simp
  then have "length (F ! i) = length (S ! i)" using assms(2) l by simp
  then show ?thesis using assms(2,3) l by (simp add: masked_fill_def equals_mask_def)
qed

lemma paint_shape:
  assumes "shape T = shape seg" and "k < length seg"
  shows "shape (T[k := masked_fill (T ! k) (equals_mask (seg ! k) n) v]) = shape seg"
proof -
  have kT: "k < length T" using shape_eq_length[OF assms(1)] assms(2) by simp
  have "map length (masked_fill (T ! k) (equals_mask (seg ! k) n) v) = map length (T ! k)"
    by (rule masked_fill_lengths) (rule shape_eq_frame[OF assms(1) kT])
  then have "shape (T[k := masked_fill (T ! k) (equals_mask (seg ! k) n) v]) = (shape T)[k := shape T ! k]"
    using kT by (simp add: shape_def map_update)
  then show ?thesis using assms(1) by simp
qed

lemma paint_pixel:
  assumes "shape T = shape seg" and "k < length seg" and "inside seg f i j"
  shows "T[k := masked_fill (T ! k) (equals_mask (seg ! k) n) v] ! f ! i ! j
           = (if f = k \<and> seg ! f ! i ! j = n then v else T ! f ! i ! j)"
proof -
  have kT: "k < length T" using shape_eq_length[OF assms(1)] assms(2) by simp
  have ins: "inside T f i j" using assms(3) shape_eq_inside[OF assms(1)] by simp
  show ?thesis
  proof (cases "f = k")
    case False
    then show ?thesis by simp
  next
    case True
    have i: "i < length (T ! k)" and j: "j < length (T ! k ! i)"
      using ins True by (simp_all add: inside_def)
    have "masked_fill (T ! k) (equals_mask (seg ! k) n) v ! i ! j
            = (if seg ! k ! i ! j = n then v else T ! k ! i ! j)"
      by (rule masked_fill_pixel[OF shape_eq_frame[OF assms(1) kT] i j])
    then show ?thesis using True kT by simp
  qed
qed

subsection \<open>The relabelling loop\<close>

lemma np_position_bound: "np_position xs t = Inr k \<Longrightarrow> k < length xs"
  by (auto simp: np_position_def split: if_splits)

lemma np_position_length: "length xs = length ys \<Longrightarrow> np_position xs t = np_position ys t"
  by (simp add: np_position_def)

lemma np_index_position:
  "np_index xs t = Inr y \<longleftrightarrow> (\<exists>k. np_position xs t = Inr k \<and> y = xs ! k)"
  by (auto simp: np_index_def bind_eq_Inr)

lemma np_position_inside:
  "0 \<le> t \<Longrightarrow> t < int (length xs) \<Longrightarrow> np_position xs t = Inr (nat t)"
  by (simp add: np_position_def)

lemma deref_eq_Inr: "deref store r = Inr x \<longleftrightarrow> r < length store \<and> x = store ! r"
  by (auto simp: deref_def)

lemma frame_position_inside:
  "frame_of G n = Some (int f) \<Longrightarrow> f < length seg \<Longrightarrow> frame_position G seg n = Some f"
  by (simp add: frame_position_def np_position_inside)

lemma as_dtype_eq_Inr: "as_dtype d v = Inr w \<longleftrightarrow> representable d v \<and> w = v"
  by (auto simp: as_dtype_def)

lemma relabel_body_Inr:
  assumes "relabel_body gref sref tref item h = Inr h1"
    and "graphs h ! gref = G" and "arrays h ! sref = seg" and "arrays h ! tref = T"
    and "length T = length seg"
  shows "\<exists>k v. frame_position G seg (fst item) = Some k \<and> tracklet_of G (fst item) = Some v
           \<and> k < length seg
           \<and> h1 = h\<lparr>arrays := (arrays h)
                  [tref := T[k := masked_fill (T ! k) (equals_mask (seg ! k) (fst item)) v]]\<rparr>"
proof -
  from assms(1) obtain a t b v frame k where
    a: "map_of (nodes (graphs h ! gref)) (fst item) = Some a" and t: "attr_t a = Some t"
    and b: "map_of (nodes (graphs h ! gref)) (fst item) = Some b" and v: "attr_tracklet_id b = Some v"
    and fr: "np_index (arrays h ! sref) t = Inr frame"
    and k: "np_position (arrays h ! tref) t = Inr k"
    and h1: "h1 = h\<lparr>arrays := (arrays h)
               [tref := (arrays h ! tref)[k := masked_fill (arrays h ! tref ! k)
                   (equals_mask frame (fst item)) v]]\<rparr>"
    unfolding relabel_body_def Let_def bind_eq_Inr deref_eq_Inr getitem_eq_Inr attr_eq_Inr
      as_dtype_eq_Inr
    by blast
  have ba: "b = a" using a b by simp
  have k': "np_position seg t = Inr k"
    using k assms(4,5) np_position_length[of T seg t] by simp
  have frame: "frame = seg ! k" using fr k' assms(3) by (simp add: np_index_position)
  have "frame_position G seg (fst item) = Some k"
    using a t k' assms(2) by (simp add: frame_position_def frame_of_def)
  moreover have "tracklet_of G (fst item) = Some v"
    using a v ba assms(2) by (simp add: tracklet_of_def)
  moreover have "k < length seg" using k' by (rule np_position_bound)
  ultimately show ?thesis using h1 frame assms(4) by simp
qed

lemma relabel_body_total:
  assumes "gref < length (graphs h)" and "sref < length (arrays h)" and "tref < length (arrays h)"
    and "length (arrays h ! tref) = length (arrays h ! sref)"
    and "frame_position (graphs h ! gref) (arrays h ! sref) (fst item) \<noteq> None"
    and "\<exists>v. tracklet_of (graphs h ! gref) (fst item) = Some v \<and> representable (dtypes h tref) v"
  shows "\<exists>h1. relabel_body gref sref tref item h = Inr h1"
proof -
  from assms(5) obtain a t k where a: "map_of (nodes (graphs h ! gref)) (fst item) = Some a"
    and t: "attr_t a = Some t" and k: "np_position (arrays h ! sref) t = Inr k"
    by (auto simp: frame_position_def frame_of_def split: option.splits sum.splits)
  from assms(6) a obtain v where v: "attr_tracklet_id a = Some v"
    and fits: "representable (dtypes h tref) v"
    by (auto simp: tracklet_of_def)
  have k': "np_position (arrays h ! tref) t = Inr k"
    using k np_position_length[OF assms(4), of t] by simp
  have "np_index (arrays h ! sref) t = Inr (arrays h ! sref ! k)"
    using k by (simp add: np_index_position)
  then show ?thesis
    using assms(1-3) a t v k' fits
    by (simp add: relabel_body_def Let_def deref_def getitem_def attr_def as_dtype_def)
qed

lemma relabel_body_overflow:
  assumes "gref < length (graphs h)" and "sref < length (arrays h)" and "tref < length (arrays h)"
    and "length (arrays h ! tref) = length (arrays h ! sref)"
    and "frame_position (graphs h ! gref) (arrays h ! sref) (fst item) \<noteq> None"
    and "tracklet_of (graphs h ! gref) (fst item) = Some v"
    and "\<not> representable (dtypes h tref) v"
  shows "relabel_body gref sref tref item h = Inl OverflowError"
proof -
  from assms(5) obtain a t k where a: "map_of (nodes (graphs h ! gref)) (fst item) = Some a"
    and t: "attr_t a = Some t" and k: "np_position (arrays h ! sref) t = Inr k"
    by (auto simp: frame_position_def frame_of_def split: option.splits sum.splits)
  from assms(6) a have v: "attr_tracklet_id a = Some v"
    by (auto simp: tracklet_of_def)
  have k': "np_position (arrays h ! tref) t = Inr k"
    using k np_position_length[OF assms(4), of t] by simp
  have "np_index (arrays h ! sref) t = Inr (arrays h ! sref ! k)"
    using k by (simp add: np_index_position)
  then show ?thesis
    using assms(1-3,7) a t v k'
    by (simp add: relabel_body_def Let_def deref_def getitem_def attr_def as_dtype_def)
qed

lemma relabel_loop_post:
  assumes "for_loop items (relabel_body gref sref tref) h = Inr h'"
    and "graphs h ! gref = G" and "arrays h ! sref = seg"
    and "tref < length (arrays h)" and "tref \<noteq> sref"
    and "shape (arrays h ! tref) = shape seg"
  shows "graphs h' = graphs h \<and> dtypes h' = dtypes h \<and> length (arrays h') = length (arrays h)
           \<and> (\<forall>r. r \<noteq> tref \<longrightarrow> arrays h' ! r = arrays h ! r)
           \<and> shape (arrays h' ! tref) = shape seg
           \<and> (\<forall>f i j. inside seg f i j \<longrightarrow>
                 (if seg ! f ! i ! j \<in> fst ` set items \<and> frame_position G seg (seg ! f ! i ! j) = Some f
                  then tracklet_of G (seg ! f ! i ! j) = Some (arrays h' ! tref ! f ! i ! j)
                  else arrays h' ! tref ! f ! i ! j = arrays h ! tref ! f ! i ! j))"
  using assms
proof (induction items arbitrary: h)
  case Nil
  then show ?case by simp
next
  case (Cons item items)
  let ?n = "fst item"
  let ?T = "arrays h ! tref"
  from Cons.prems(1) obtain h1 where b: "relabel_body gref sref tref item h = Inr h1"
    and l: "for_loop items (relabel_body gref sref tref) h1 = Inr h'"
    by (auto simp: bind_eq_Inr)
  have lT: "length ?T = length seg" by (rule shape_eq_length[OF Cons.prems(6)])
  from relabel_body_Inr[OF b Cons.prems(2,3) refl lT] obtain k v where
    fr: "frame_position G seg ?n = Some k" and tr: "tracklet_of G ?n = Some v"
    and k: "k < length seg"
    and h1: "h1 = h\<lparr>arrays := (arrays h)
                  [tref := ?T[k := masked_fill (?T ! k) (equals_mask (seg ! k) ?n) v]]\<rparr>"
    by blast
  define T1 where "T1 = ?T[k := masked_fill (?T ! k) (equals_mask (seg ! k) ?n) v]"
  have g1: "graphs h1 ! gref = G" using Cons.prems(2) by (simp add: h1)
  have s1: "arrays h1 ! sref = seg" using Cons.prems(3,5) by (simp add: h1)
  have r1: "tref < length (arrays h1)" using Cons.prems(4) by (simp add: h1)
  have T1: "arrays h1 ! tref = T1" using Cons.prems(4) by (simp add: h1 T1_def)
  have sh1: "shape (arrays h1 ! tref) = shape seg"
    unfolding T1 T1_def by (rule paint_shape[OF Cons.prems(6) k])
  from Cons.IH[OF l g1 s1 r1 Cons.prems(5) sh1] have
    gr: "graphs h' = graphs h1" and dt: "dtypes h' = dtypes h1"
    and len: "length (arrays h') = length (arrays h1)"
    and other: "\<And>r. r \<noteq> tref \<Longrightarrow> arrays h' ! r = arrays h1 ! r"
    and sh: "shape (arrays h' ! tref) = shape seg"
    and px: "\<And>f i j. inside seg f i j \<Longrightarrow>
                 (if seg ! f ! i ! j \<in> fst ` set items \<and> frame_position G seg (seg ! f ! i ! j) = Some f
                  then tracklet_of G (seg ! f ! i ! j) = Some (arrays h' ! tref ! f ! i ! j)
                  else arrays h' ! tref ! f ! i ! j = arrays h1 ! tref ! f ! i ! j)"
    by blast+
  have px1: "T1 ! f ! i ! j = (if f = k \<and> seg ! f ! i ! j = ?n then v else ?T ! f ! i ! j)"
    if "inside seg f i j" for f i j
    unfolding T1_def by (rule paint_pixel[OF Cons.prems(6) k that])
  have "graphs h' = graphs h" using gr by (simp add: h1)
  moreover have "dtypes h' = dtypes h" using dt by (simp add: h1)
  moreover have "length (arrays h') = length (arrays h)" using len by (simp add: h1)
  moreover have "\<forall>r. r \<noteq> tref \<longrightarrow> arrays h' ! r = arrays h ! r"
    using other by (simp add: h1)
  moreover have "\<forall>f i j. inside seg f i j \<longrightarrow>
                 (if seg ! f ! i ! j \<in> fst ` set (item # items) \<and> frame_position G seg (seg ! f ! i ! j) = Some f
                  then tracklet_of G (seg ! f ! i ! j) = Some (arrays h' ! tref ! f ! i ! j)
                  else arrays h' ! tref ! f ! i ! j = arrays h ! tref ! f ! i ! j)"
  proof (intro allI impI)
    fix f i j assume ins: "inside seg f i j"
    let ?p = "seg ! f ! i ! j"
    show "if ?p \<in> fst ` set (item # items) \<and> frame_position G seg ?p = Some f
          then tracklet_of G ?p = Some (arrays h' ! tref ! f ! i ! j)
          else arrays h' ! tref ! f ! i ! j = arrays h ! tref ! f ! i ! j"
    proof (cases "?p \<in> fst ` set items \<and> frame_position G seg ?p = Some f")
      case True
      with px[OF ins] show ?thesis by auto
    next
      case False
      with px[OF ins] have e: "arrays h' ! tref ! f ! i ! j = T1 ! f ! i ! j" by (simp add: T1)
      show ?thesis
      proof (cases "?p = ?n \<and> frame_position G seg ?p = Some f")
        case True
        then have p: "?p = ?n" and pf: "frame_position G seg ?p = Some f" by blast+
        have "frame_position G seg ?n = Some f" using pf unfolding p .
        then have fk: "f = k" using fr by simp
        have "arrays h' ! tref ! f ! i ! j = v" using e px1[OF ins] fk p by simp
        moreover have "tracklet_of G ?p = Some v" using p tr by simp
        moreover have "?p \<in> fst ` set (item # items)" using p by simp
        ultimately show ?thesis using True by auto
      next
        case no: False
        have "\<not> (f = k \<and> ?p = ?n)"
        proof
          assume c: "f = k \<and> ?p = ?n"
          then have f: "f = k" and p: "?p = ?n" by blast+
          have "frame_position G seg ?p = frame_position G seg ?n" using p by simp
          then have "frame_position G seg ?p = Some f" using fr f by simp
          with p no show False by blast
        qed
        with e px1[OF ins] have "arrays h' ! tref ! f ! i ! j = ?T ! f ! i ! j" by simp
        with False no show ?thesis by auto
      qed
    qed
  qed
  ultimately show ?case using sh by blast
qed

lemma relabel_loop_total:
  assumes "gref < length (graphs h)" and "sref < length (arrays h)"
    and "tref < length (arrays h)" and "tref \<noteq> sref"
    and "shape (arrays h ! tref) = shape (arrays h ! sref)"
    and "\<forall>item \<in> set items. frame_position (graphs h ! gref) (arrays h ! sref) (fst item) \<noteq> None
            \<and> (\<exists>v. tracklet_of (graphs h ! gref) (fst item) = Some v
                    \<and> representable (dtypes h tref) v)"
  shows "\<exists>h'. for_loop items (relabel_body gref sref tref) h = Inr h'"
  using assms
proof (induction items arbitrary: h)
  case Nil
  then show ?case by simp
next
  case (Cons item items)
  have lT: "length (arrays h ! tref) = length (arrays h ! sref)"
    by (rule shape_eq_length[OF Cons.prems(5)])
  from Cons.prems(6) have it: "frame_position (graphs h ! gref) (arrays h ! sref) (fst item) \<noteq> None"
    "\<exists>v. tracklet_of (graphs h ! gref) (fst item) = Some v \<and> representable (dtypes h tref) v"
    by simp_all
  from relabel_body_total[OF Cons.prems(1-3) lT it] obtain h1 where
    b: "relabel_body gref sref tref item h = Inr h1" by blast
  have one: "for_loop [item] (relabel_body gref sref tref) h = Inr h1" using b by simp
  from relabel_loop_post[OF one refl refl Cons.prems(3,4,5)] have
    gr: "graphs h1 = graphs h" and dt: "dtypes h1 = dtypes h"
    and len: "length (arrays h1) = length (arrays h)"
    and other: "\<And>r. r \<noteq> tref \<Longrightarrow> arrays h1 ! r = arrays h ! r"
    and sh: "shape (arrays h1 ! tref) = shape (arrays h ! sref)"
    by blast+
  have s: "arrays h1 ! sref = arrays h ! sref" using other Cons.prems(4) by metis
  have "\<exists>h'. for_loop items (relabel_body gref sref tref) h1 = Inr h'"
  proof (rule Cons.IH)
    show "gref < length (graphs h1)" using Cons.prems(1) gr by simp
    show "sref < length (arrays h1)" using Cons.prems(2) len by simp
    show "tref < length (arrays h1)" using Cons.prems(3) len by simp
    show "tref \<noteq> sref" by (rule Cons.prems(4))
    show "shape (arrays h1 ! tref) = shape (arrays h1 ! sref)" using sh s by simp
    show "\<forall>item \<in> set items. frame_position (graphs h1 ! gref) (arrays h1 ! sref) (fst item) \<noteq> None
            \<and> (\<exists>v. tracklet_of (graphs h1 ! gref) (fst item) = Some v
                    \<and> representable (dtypes h1 tref) v)"
      using Cons.prems(6) gr dt s by simp
  qed
  then show ?case using b by simp
qed

subsection \<open>The relabelling\<close>

lemma frame_of_node: "frame_of G n = Some t \<Longrightarrow> n \<in> fst ` set (nodes G)"
  by (auto simp: frame_of_def split: option.splits dest: map_of_SomeD intro: rev_image_eqI)

lemma node_has_data: "n \<in> fst ` set (nodes G) \<Longrightarrow> map_of (nodes G) n \<noteq> None"
  by (simp add: map_of_eq_None_iff)

lemma frame_position_assign [simp]:
  "frame_position (assign_tracklet_ids G) seg n = frame_position G seg n"
  by (simp add: frame_position_def)

lemma relabel_call:
  assumes "relabel_segmentation gref sref h = Inr (tref, h')"
  shows "gref < length (graphs h) \<and> sref < length (arrays h) \<and> tref = length (arrays h)
       \<and> graphs h' = (graphs h)[gref := assign_tracklet_ids (graphs h ! gref)]
       \<and> dtypes h' = (dtypes h)(tref := dtypes h sref)
       \<and> length (arrays h') = Suc (length (arrays h))
       \<and> (\<forall>r < length (arrays h). arrays h' ! r = arrays h ! r)
       \<and> shape (arrays h' ! tref) = shape (arrays h ! sref)
       \<and> (\<forall>f i j. inside (arrays h ! sref) f i j \<longrightarrow>
             (if arrays h ! sref ! f ! i ! j \<in> fst ` set (nodes (graphs h ! gref))
                 \<and> frame_position (graphs h ! gref) (arrays h ! sref) (arrays h ! sref ! f ! i ! j) = Some f
              then tracklet_of (assign_tracklet_ids (graphs h ! gref)) (arrays h ! sref ! f ! i ! j)
                     = Some (arrays h' ! tref ! f ! i ! j)
              else arrays h' ! tref ! f ! i ! j = 0))"
proof -
  let ?G = "assign_tracklet_ids (graphs h ! gref)"
  let ?seg = "arrays h ! sref"
  define h2 where "h2 = h\<lparr>graphs := (graphs h)[gref := ?G], arrays := arrays h @ [zeros_like ?seg],
                            dtypes := (dtypes h)(length (arrays h) := dtypes h sref)\<rparr>"
  from assms have g: "gref < length (graphs h)" and s: "sref < length (arrays h)"
    and t: "tref = length (arrays h)"
    and l: "for_loop (nodes ?G) (relabel_body gref sref (length (arrays h))) h2 = Inr h'"
    unfolding relabel_segmentation_def Let_def bind_eq_Inr deref_eq_Inr h2_def
    by auto
  have a: "graphs h2 ! gref = ?G" using g by (simp add: h2_def)
  have b: "arrays h2 ! sref = ?seg" using s by (simp add: h2_def nth_append)
  have c: "length (arrays h) < length (arrays h2)" by (simp add: h2_def)
  have d: "length (arrays h) \<noteq> sref" using s by simp
  have z: "arrays h2 ! length (arrays h) = zeros_like ?seg" by (simp add: h2_def)
  have e: "shape (arrays h2 ! length (arrays h)) = shape ?seg" by (simp add: z)
  from relabel_loop_post[OF l a b c d e] have
    gr: "graphs h' = graphs h2" and dt: "dtypes h' = dtypes h2"
    and len: "length (arrays h') = length (arrays h2)"
    and other: "\<And>r. r \<noteq> length (arrays h) \<Longrightarrow> arrays h' ! r = arrays h2 ! r"
    and sh: "shape (arrays h' ! length (arrays h)) = shape ?seg"
    and px: "\<And>f i j. inside ?seg f i j \<Longrightarrow>
                 (if ?seg ! f ! i ! j \<in> fst ` set (nodes ?G) \<and> frame_position ?G ?seg (?seg ! f ! i ! j) = Some f
                  then tracklet_of ?G (?seg ! f ! i ! j) = Some (arrays h' ! length (arrays h) ! f ! i ! j)
                  else arrays h' ! length (arrays h) ! f ! i ! j = arrays h2 ! length (arrays h) ! f ! i ! j)"
    by blast+
  have keys: "fst ` set (nodes ?G) = fst ` set (nodes (graphs h ! gref))"
    using assign_tracklet_ids_keys[of "graphs h ! gref"] by (metis set_map)
  have "graphs h' = (graphs h)[gref := ?G]" using gr by (simp add: h2_def)
  moreover have "dtypes h' = (dtypes h)(tref := dtypes h sref)" using dt t by (simp add: h2_def)
  moreover have "length (arrays h') = Suc (length (arrays h))" using len by (simp add: h2_def)
  moreover have "\<forall>r < length (arrays h). arrays h' ! r = arrays h ! r"
    using other by (simp add: h2_def nth_append)
  moreover have "\<forall>f i j. inside ?seg f i j \<longrightarrow>
             (if ?seg ! f ! i ! j \<in> fst ` set (nodes (graphs h ! gref))
                 \<and> frame_position (graphs h ! gref) ?seg (?seg ! f ! i ! j) = Some f
              then tracklet_of ?G (?seg ! f ! i ! j) = Some (arrays h' ! tref ! f ! i ! j)
              else arrays h' ! tref ! f ! i ! j = 0)"
  proof (intro allI impI)
    fix f i j assume ins: "inside ?seg f i j"
    from px[OF ins] zeros_like_pixel[OF ins]
    show "if ?seg ! f ! i ! j \<in> fst ` set (nodes (graphs h ! gref))
                 \<and> frame_position (graphs h ! gref) ?seg (?seg ! f ! i ! j) = Some f
              then tracklet_of ?G (?seg ! f ! i ! j) = Some (arrays h' ! tref ! f ! i ! j)
              else arrays h' ! tref ! f ! i ! j = 0"
      unfolding keys z t frame_position_assign by simp
  qed
  ultimately show ?thesis using g s t sh by blast
qed

lemma relabel_total:
  assumes "gref < length (graphs h)" and "sref < length (arrays h)"
    and "\<forall>n \<in> fst ` set (nodes (graphs h ! gref)).
           frame_position (graphs h ! gref) (arrays h ! sref) n \<noteq> None"
    and "\<forall>n \<in> fst ` set (nodes (graphs h ! gref)). \<forall>v.
           tracklet_of (assign_tracklet_ids (graphs h ! gref)) n = Some v
           \<longrightarrow> representable (dtypes h sref) v"
  shows "\<exists>tref h'. relabel_segmentation gref sref h = Inr (tref, h')"
proof -
  let ?G = "assign_tracklet_ids (graphs h ! gref)"
  let ?seg = "arrays h ! sref"
  define h2 where "h2 = h\<lparr>graphs := (graphs h)[gref := ?G], arrays := arrays h @ [zeros_like ?seg],
                            dtypes := (dtypes h)(length (arrays h) := dtypes h sref)\<rparr>"
  have dt: "dtypes h2 (length (arrays h)) = dtypes h sref" by (simp add: h2_def)
  have a: "graphs h2 ! gref = ?G" using assms(1) by (simp add: h2_def)
  have b: "arrays h2 ! sref = ?seg" using assms(2) by (simp add: h2_def nth_append)
  have keys: "fst ` set (nodes ?G) = fst ` set (nodes (graphs h ! gref))"
    using assign_tracklet_ids_keys[of "graphs h ! gref"] by (metis set_map)
  have "\<exists>h'. for_loop (nodes ?G) (relabel_body gref sref (length (arrays h))) h2 = Inr h'"
  proof (rule relabel_loop_total)
    show "gref < length (graphs h2)" using assms(1) by (simp add: h2_def)
    show "sref < length (arrays h2)" using assms(2) by (simp add: h2_def)
    show "length (arrays h) < length (arrays h2)" by (simp add: h2_def)
    show "length (arrays h) \<noteq> sref" using assms(2) by simp
    show "shape (arrays h2 ! length (arrays h)) = shape (arrays h2 ! sref)"
      unfolding b by (simp add: h2_def)
    show "\<forall>item \<in> set (nodes ?G). frame_position (graphs h2 ! gref) (arrays h2 ! sref) (fst item) \<noteq> None
            \<and> (\<exists>v. tracklet_of (graphs h2 ! gref) (fst item) = Some v
                    \<and> representable (dtypes h2 (length (arrays h))) v)"
    proof
      fix item assume "item \<in> set (nodes ?G)"
      then have n: "fst item \<in> fst ` set (nodes (graphs h ! gref))" using keys by blast
      have fp: "frame_position (graphs h ! gref) (arrays h ! sref) (fst item) \<noteq> None"
        using assms(3) n by blast
      have "tracklet_of ?G (fst item) \<noteq> None"
        by (rule tracklet_of_assign[OF node_has_data[OF n]])
      then obtain v where v: "tracklet_of ?G (fst item) = Some v" by blast
      with assms(4) n have "representable (dtypes h sref) v" by blast
      with v fp show "frame_position (graphs h2 ! gref) (arrays h2 ! sref) (fst item) \<noteq> None
            \<and> (\<exists>v. tracklet_of (graphs h2 ! gref) (fst item) = Some v
                    \<and> representable (dtypes h2 (length (arrays h))) v)"
        unfolding a b dt by simp
    qed
  qed
  then show ?thesis
    using assms(1,2)
    by (auto simp: relabel_segmentation_def Let_def deref_def h2_def)
qed

lemma relabel_fixture_run:
  "relabel_segmentation 0 0 relabel_heap =
     Inr (1, \<lparr>graphs = [\<lparr>nodes =
                  [(5, no_node_attrs\<lparr>attr_t := Some 0, attr_x := Some 0, attr_y := Some 0,
                                     attr_tracklet_id := Some 1\<rparr>),
                   (6, no_node_attrs\<lparr>attr_t := Some 1, attr_x := Some 0, attr_y := Some 1,
                                     attr_tracklet_id := Some 1\<rparr>)],
                edges = [((5, 6), no_edge_attrs)]\<rparr>],
              arrays = [[[[5, 9], [0, 5]], [[0, 6], [9, 6]]],
                        [[[1, 0], [0, 1]], [[0, 1], [0, 1]]]],
              dtypes = (\<lambda>r. UInt 32)\<rparr>)"
proof -
  have ids: "tracklet_ids relabel_graph = [(6, 1), (5, 1)]"
    by (simp add: tracklet_ids_def relabel_graph_def chain_of_def chain_edges_def chain_step_def
          out_degree_def)
  show ?thesis
    by (simp add: relabel_segmentation_def relabel_heap_def deref_def assign_tracklet_ids_def ids)
       (simp add: relabel_graph_def relabel_body_def deref_def getitem_def attr_def
          no_node_attrs_def relabel_volume_def np_index_def np_position_def zeros_like_def
          equals_mask_def masked_fill_def as_dtype_def fun_eq_iff)
qed

text \<open>
  Claim C9. The solution graph and the segmentation are objects of the store; every node of
  the graph has a frame \<open>t\<close> inside the volume, and the dtype of the segmentation can represent
  every tracklet id that \<^const>\<open>assign_tracklet_ids\<close> gives a node of the graph. Then the call
  returns a new array of the shape and the dtype of the segmentation in which, for every node
  of the graph, every pixel of the node's frame whose original label is the node's id carries
  the node's \<^verbatim>\<open>tracklet_id\<close>, and every pixel whose original label is no node of the graph (a
  detection that was not selected, or the background label 0, which is never a node id)
  is 0.
\<close>

theorem relabel_segmentation_pixels:
  assumes "solution_nx_graph < length (graphs h)" and "segmentation < length (arrays h)"
    and "\<forall>n \<in> fst ` set (nodes (graphs h ! solution_nx_graph)).
           \<exists>f. frame_of (graphs h ! solution_nx_graph) n = Some (int f)
              \<and> f < length (arrays h ! segmentation)"
    and "\<forall>n \<in> fst ` set (nodes (graphs h ! solution_nx_graph)). \<forall>track_id.
           tracklet_of (assign_tracklet_ids (graphs h ! solution_nx_graph)) n = Some track_id
           \<longrightarrow> representable (dtypes h segmentation) track_id"
  shows "\<exists>tracked_masks h'.
           relabel_segmentation solution_nx_graph segmentation h = Inr (tracked_masks, h')
         \<and> tracked_masks < length (arrays h')
         \<and> shape (arrays h' ! tracked_masks) = shape (arrays h ! segmentation)
         \<and> dtypes h' tracked_masks = dtypes h segmentation
         \<and> (\<forall>n f track_id i j.
               frame_of (graphs h' ! solution_nx_graph) n = Some (int f) \<longrightarrow>
               tracklet_of (graphs h' ! solution_nx_graph) n = Some track_id \<longrightarrow>
               inside (arrays h ! segmentation) f i j \<longrightarrow>
               arrays h ! segmentation ! f ! i ! j = n \<longrightarrow>
               arrays h' ! tracked_masks ! f ! i ! j = track_id)
         \<and> (\<forall>f i j. inside (arrays h ! segmentation) f i j \<longrightarrow>
               arrays h ! segmentation ! f ! i ! j \<notin> fst ` set (nodes (graphs h ! solution_nx_graph)) \<longrightarrow>
               arrays h' ! tracked_masks ! f ! i ! j = 0)"
proof -
  let ?G = "graphs h ! solution_nx_graph"
  let ?seg = "arrays h ! segmentation"
  have "\<forall>n \<in> fst ` set (nodes ?G). frame_position ?G ?seg n \<noteq> None"
    using assms(3) frame_position_inside by fastforce
  from relabel_total[OF assms(1,2) this assms(4)] obtain tracked_masks h' where
    run: "relabel_segmentation solution_nx_graph segmentation h = Inr (tracked_masks, h')"
    by blast
  from relabel_call[OF run] have
    t: "tracked_masks = length (arrays h)"
    and gr: "graphs h' = (graphs h)[solution_nx_graph := assign_tracklet_ids ?G]"
    and dt: "dtypes h' = (dtypes h)(tracked_masks := dtypes h segmentation)"
    and len: "length (arrays h') = Suc (length (arrays h))"
    and sh: "shape (arrays h' ! tracked_masks) = shape ?seg"
    and px: "\<And>f i j. inside ?seg f i j \<Longrightarrow>
             (if ?seg ! f ! i ! j \<in> fst ` set (nodes ?G)
                 \<and> frame_position ?G ?seg (?seg ! f ! i ! j) = Some f
              then tracklet_of (assign_tracklet_ids ?G) (?seg ! f ! i ! j)
                     = Some (arrays h' ! tracked_masks ! f ! i ! j)
              else arrays h' ! tracked_masks ! f ! i ! j = 0)"
    by blast+
  have G': "graphs h' ! solution_nx_graph = assign_tracklet_ids ?G"
    using gr assms(1) by simp
  have dt': "dtypes h' tracked_masks = dtypes h segmentation" using dt by simp
  have "arrays h' ! tracked_masks ! f ! i ! j = track_id"
    if fr: "frame_of (graphs h' ! solution_nx_graph) n = Some (int f)"
      and tr: "tracklet_of (graphs h' ! solution_nx_graph) n = Some track_id"
      and ins: "inside ?seg f i j" and p: "?seg ! f ! i ! j = n"
    for n f track_id i j
  proof -
    have fr': "frame_of ?G n = Some (int f)" using fr unfolding G' by simp
    have "n \<in> fst ` set (nodes ?G)" by (rule frame_of_node[OF fr'])
    moreover have "frame_position ?G ?seg n = Some f"
      using fr' ins by (simp add: frame_position_inside inside_def)
    ultimately have "tracklet_of (assign_tracklet_ids ?G) n = Some (arrays h' ! tracked_masks ! f ! i ! j)"
      using px[OF ins] p by simp
    with tr show ?thesis unfolding G' by simp
  qed
  moreover have "arrays h' ! tracked_masks ! f ! i ! j = 0"
    if "inside ?seg f i j" and "?seg ! f ! i ! j \<notin> fst ` set (nodes ?G)" for f i j
    using px[OF that(1)] that(2) by simp
  moreover have "tracked_masks < length (arrays h')" using t len by simp
  ultimately show ?thesis using run sh dt' by blast
qed

theorem relabel_segmentation_pixels_witness:
  "\<exists>tracked_masks h'. relabel_segmentation 0 0 relabel_heap = Inr (tracked_masks, h')
      \<and> arrays h' ! tracked_masks ! 0 ! 0 ! 0 = 1 \<and> arrays h' ! tracked_masks ! 1 ! 1 ! 1 = 1
      \<and> arrays h' ! tracked_masks ! 0 ! 0 ! 1 = 0 \<and> arrays h' ! tracked_masks ! 1 ! 0 ! 0 = 0"
proof -
  have a1: "(0::nat) < length (graphs relabel_heap)" "(0::nat) < length (arrays relabel_heap)"
    by (simp_all add: relabel_heap_def)
  have a3: "\<forall>n \<in> fst ` set (nodes (graphs relabel_heap ! 0)).
           \<exists>f. frame_of (graphs relabel_heap ! 0) n = Some (int f)
              \<and> f < length (arrays relabel_heap ! 0)"
    by (simp add: relabel_heap_def relabel_graph_def relabel_volume_def frame_of_def
          no_node_attrs_def)
  have ids: "tracklet_ids relabel_graph = [(6, 1), (5, 1)]"
    by (simp add: tracklet_ids_def relabel_graph_def chain_of_def chain_edges_def chain_step_def
          out_degree_def)
  have a4: "\<forall>n \<in> fst ` set (nodes (graphs relabel_heap ! 0)). \<forall>track_id.
           tracklet_of (assign_tracklet_ids (graphs relabel_heap ! 0)) n = Some track_id
           \<longrightarrow> representable (dtypes relabel_heap 0) track_id"
    by (simp add: relabel_heap_def assign_tracklet_ids_def ids tracklet_of_def)
       (simp add: relabel_graph_def)
  from relabel_segmentation_pixels[OF a1 a3 a4] obtain tracked_masks h' where
    run: "relabel_segmentation 0 0 relabel_heap = Inr (tracked_masks, h')"
    and on: "\<And>n f track_id i j.
               frame_of (graphs h' ! 0) n = Some (int f) \<Longrightarrow>
               tracklet_of (graphs h' ! 0) n = Some track_id \<Longrightarrow>
               inside (arrays relabel_heap ! 0) f i j \<Longrightarrow>
               arrays relabel_heap ! 0 ! f ! i ! j = n \<Longrightarrow>
               arrays h' ! tracked_masks ! f ! i ! j = track_id"
    and off: "\<And>f i j. inside (arrays relabel_heap ! 0) f i j \<Longrightarrow>
               arrays relabel_heap ! 0 ! f ! i ! j \<notin> fst ` set (nodes (graphs relabel_heap ! 0)) \<Longrightarrow>
               arrays h' ! tracked_masks ! f ! i ! j = 0"
    by blast
  from run have g: "graphs h' ! 0 = \<lparr>nodes =
                  [(5, no_node_attrs\<lparr>attr_t := Some 0, attr_x := Some 0, attr_y := Some 0,
                                     attr_tracklet_id := Some 1\<rparr>),
                   (6, no_node_attrs\<lparr>attr_t := Some 1, attr_x := Some 0, attr_y := Some 1,
                                     attr_tracklet_id := Some 1\<rparr>)],
                edges = [((5, 6), no_edge_attrs)]\<rparr>"
    unfolding relabel_fixture_run by auto
  have p1: "arrays h' ! tracked_masks ! 0 ! 0 ! 0 = 1"
    by (rule on[of 5 0 1 0 0])
       (simp_all add: g frame_of_def tracklet_of_def no_node_attrs_def relabel_heap_def
          relabel_volume_def inside_def)
  have p2: "arrays h' ! tracked_masks ! 1 ! 1 ! 1 = 1"
    by (rule on[of 6 1 1 1 1])
       (simp_all add: g frame_of_def tracklet_of_def no_node_attrs_def relabel_heap_def
          relabel_volume_def inside_def)
  have p3: "arrays h' ! tracked_masks ! 0 ! 0 ! 1 = 0"
    by (rule off[of 0 0 1])
       (simp_all add: relabel_heap_def relabel_graph_def relabel_volume_def inside_def)
  have p4: "arrays h' ! tracked_masks ! 1 ! 0 ! 0 = 0"
    by (rule off[of 1 0 0])
       (simp_all add: relabel_heap_def relabel_graph_def relabel_volume_def inside_def)
  show ?thesis using run p1 p2 p3 p4 by blast
qed

text \<open>
  Claim C10. A call that returns has replaced the graph its first argument names by the
  graph with the tracklet ids, so that every node of that graph carries a \<^verbatim>\<open>tracklet_id\<close>;
  no other graph changes. The result is a reference that named no array before the call:
  the store has one array more, and every array that was there before the call, the
  segmentation among them, is as it was. The new array has the shape of the segmentation,
  and each of its pixels is 0 unless the loop wrote a tracklet id there.
\<close>

theorem relabel_segmentation_effects:
  assumes "relabel_segmentation solution_nx_graph segmentation h = Inr (tracked_masks, h')"
  shows "graphs h' = (graphs h)[solution_nx_graph := assign_tracklet_ids (graphs h ! solution_nx_graph)]
       \<and> map fst (nodes (graphs h' ! solution_nx_graph)) = map fst (nodes (graphs h ! solution_nx_graph))
       \<and> list_all (\<lambda>item. attr_tracklet_id (snd item) \<noteq> None) (nodes (graphs h' ! solution_nx_graph))
       \<and> tracked_masks = length (arrays h)
       \<and> length (arrays h') = Suc (length (arrays h))
       \<and> take (length (arrays h)) (arrays h') = arrays h
       \<and> arrays h' ! segmentation = arrays h ! segmentation
       \<and> shape (arrays h' ! tracked_masks) = shape (arrays h ! segmentation)
       \<and> (\<forall>f i j. inside (arrays h ! segmentation) f i j \<longrightarrow>
             arrays h' ! tracked_masks ! f ! i ! j = 0
             \<or> tracklet_of (graphs h' ! solution_nx_graph) (arrays h ! segmentation ! f ! i ! j)
                  = Some (arrays h' ! tracked_masks ! f ! i ! j))"
proof -
  let ?G = "graphs h ! solution_nx_graph"
  let ?seg = "arrays h ! segmentation"
  from relabel_call[OF assms] have
    g: "solution_nx_graph < length (graphs h)" and s: "segmentation < length (arrays h)"
    and t: "tracked_masks = length (arrays h)"
    and gr: "graphs h' = (graphs h)[solution_nx_graph := assign_tracklet_ids ?G]"
    and len: "length (arrays h') = Suc (length (arrays h))"
    and old: "\<And>r. r < length (arrays h) \<Longrightarrow> arrays h' ! r = arrays h ! r"
    and sh: "shape (arrays h' ! tracked_masks) = shape ?seg"
    and px: "\<And>f i j. inside ?seg f i j \<Longrightarrow>
             (if ?seg ! f ! i ! j \<in> fst ` set (nodes ?G)
                 \<and> frame_position ?G ?seg (?seg ! f ! i ! j) = Some f
              then tracklet_of (assign_tracklet_ids ?G) (?seg ! f ! i ! j)
                     = Some (arrays h' ! tracked_masks ! f ! i ! j)
              else arrays h' ! tracked_masks ! f ! i ! j = 0)"
    by blast+
  have G': "graphs h' ! solution_nx_graph = assign_tracklet_ids ?G"
    using gr g by simp
  have keys: "map fst (nodes (graphs h' ! solution_nx_graph)) = map fst (nodes ?G)"
    unfolding G' by simp
  have all: "list_all (\<lambda>item. attr_tracklet_id (snd item) \<noteq> None) (nodes (graphs h' ! solution_nx_graph))"
    unfolding G' list_all_iff using assign_tracklet_ids_all[of _ _ ?G] by auto
  have tk: "take (length (arrays h)) (arrays h') = arrays h"
    by (rule nth_equalityI) (simp_all add: len old)
  have "arrays h' ! tracked_masks ! f ! i ! j = 0
          \<or> tracklet_of (graphs h' ! solution_nx_graph) (?seg ! f ! i ! j)
               = Some (arrays h' ! tracked_masks ! f ! i ! j)"
    if "inside ?seg f i j" for f i j
    using px[OF that] unfolding G' by (auto split: if_splits)
  then show ?thesis using gr keys all t len tk old[OF s] sh by blast
qed

theorem relabel_segmentation_effects_witness:
  "\<exists>h'. relabel_segmentation 0 0 relabel_heap = Inr (1, h')
      \<and> length (arrays relabel_heap) = 1
      \<and> arrays h' ! 0 = relabel_volume
      \<and> map fst (nodes (graphs h' ! 0)) = [5, 6]
      \<and> list_all (\<lambda>item. attr_tracklet_id (snd item) \<noteq> None) (nodes (graphs h' ! 0))"
proof -
  obtain h' where run: "relabel_segmentation 0 0 relabel_heap = Inr (1, h')"
    using relabel_fixture_run by blast
  from relabel_segmentation_effects[OF run] have
    k: "map fst (nodes (graphs h' ! 0)) = map fst (nodes (graphs relabel_heap ! 0))"
    and a: "list_all (\<lambda>item. attr_tracklet_id (snd item) \<noteq> None) (nodes (graphs h' ! 0))"
    and l: "1 = length (arrays relabel_heap)"
    and s: "arrays h' ! 0 = arrays relabel_heap ! 0"
    by blast+
  have "map fst (nodes (graphs h' ! 0)) = [5, 6]"
    using k by (simp add: relabel_heap_def relabel_graph_def)
  moreover have "arrays h' ! 0 = relabel_volume" using s by (simp add: relabel_heap_def)
  ultimately show ?thesis using run a l by auto
qed

section \<open>Properties of the solver\<close>

subsection \<open>Forests\<close>








subsection \<open>Selections and their subgraphs\<close>

lemma subseqs_subset: "ys \<in> set (subseqs xs) \<Longrightarrow> set ys \<subseteq> set xs"
  using subseqs_powset[of xs] by blast


lemma all_selections_iff:
  "sel \<in> set (all_selections G) \<longleftrightarrow>
     selected_nodes sel \<in> set (subseqs (map fst (nodes G)))
     \<and> selected_edges sel \<in> set (subseqs (map fst (edges G)))"
  by (cases sel) (auto simp: all_selections_def)

lemma solutions_feasible:
  "sel \<in> set (solutions S) \<Longrightarrow> feasible S sel \<and> sel \<in> set (all_selections (graph S))"
  by (auto simp: solutions_def Let_def)

lemma solutions_optimal:
  "sel \<in> set (solutions S) \<Longrightarrow> other \<in> set (all_selections (graph S)) \<Longrightarrow> feasible S other
   \<Longrightarrow> objective S sel \<le> objective S other"
  by (auto simp: solutions_def Let_def list_all_iff)

lemma solutions_intro:
  assumes "sel \<in> set (all_selections (graph S))" and "feasible S sel"
    and "\<And>other. other \<in> set (all_selections (graph S)) \<Longrightarrow> feasible S other
           \<Longrightarrow> objective S sel \<le> objective S other"
  shows "sel \<in> set (solutions S)"
  using assms by (auto simp: solutions_def Let_def list_all_iff)









subsection \<open>The structure of a solution\<close>





lemma cost_simps [simp]:
  "edge_cost G (Appear constant ignore) e = 0" "edge_cost G (Split constant) e = 0"
  "appear_cost G (EdgeDistance weight constant) n = 0"
  "appear_cost G (EdgeSelection weight constant) n = 0"
  "appear_cost G (Split constant) n = 0"
  "appear_cost G (Appear constant ignore) n = (if ignore \<and> ignored G n then 0 else constant)"
  "split_cost (Split constant) = constant" "split_cost (EdgeDistance weight constant) = 0"
  "split_cost (EdgeSelection weight constant) = 0" "split_cost (Appear constant ignore) = 0"
  by (simp_all add: edge_cost_def appear_cost_def split_cost_def)





subsection \<open>Solvers without a negative cost\<close>

lemma distance_nonneg: "0 \<le> distance p q"
  by (simp add: distance_def linalg_norm_def)

lemma drift_dist_nonneg:
  assumes "list_all (\<lambda>e. case drift_dist_of G e of None \<Rightarrow> True | Some d \<Rightarrow> 0 \<le> d)
             (map fst (edges G))"
    and "drift_dist_of G e = Some d"
  shows "0 \<le> d"
proof -
  from assms(2) obtain a where "map_of (edges G) e = Some a"
    by (auto simp: drift_dist_of_def split: option.splits)
  then have "e \<in> set (map fst (edges G))" using map_of_SomeD[of "edges G" e a] by force
  with assms(1) have "case drift_dist_of G e of None \<Rightarrow> True | Some d \<Rightarrow> 0 \<le> d"
    unfolding list_all_iff by blast
  with assms(2) show ?thesis by simp
qed

lemma edge_cost_nonneg:
  assumes "nonnegative_cost G c"
  shows "0 \<le> edge_cost G c e"
proof (cases c)
  case (EdgeDistance w k)
  with assms have "0 \<le> w" "0 \<le> k" by (simp_all add: nonnegative_cost_def)
  then have "0 \<le> w * distance p q + k" for p q
    using distance_nonneg[of p q] by simp
  with EdgeDistance show ?thesis by (simp add: edge_cost_def split: option.splits)
next
  case (EdgeSelection w k)
  with assms have w: "0 \<le> w" "0 \<le> k"
    and d: "list_all (\<lambda>e. case drift_dist_of G e of None \<Rightarrow> True | Some d \<Rightarrow> 0 \<le> d)
              (map fst (edges G))"
    by (simp_all add: nonnegative_cost_def)
  show ?thesis
  proof (cases "drift_dist_of G e")
    case None
    with EdgeSelection show ?thesis by (simp add: edge_cost_def)
  next
    case (Some x)
    with d have "0 \<le> x" by (rule drift_dist_nonneg)
    with w have "0 \<le> w * x + k" by simp
    with EdgeSelection Some show ?thesis by (simp add: edge_cost_def)
  qed
next
  case (Appear k ignore)
  then show ?thesis by (simp add: edge_cost_def)
next
  case (Split k)
  then show ?thesis by (simp add: edge_cost_def)
qed

lemma appear_cost_nonneg: "nonnegative_cost G c \<Longrightarrow> 0 \<le> appear_cost G c n"
  by (cases c) (simp_all add: nonnegative_cost_def appear_cost_def)

lemma split_cost_nonneg: "nonnegative_cost G c \<Longrightarrow> 0 \<le> split_cost c"
  by (cases c) (simp_all add: nonnegative_cost_def split_cost_def)

lemma sum_list_map_nonneg: "(\<And>x. x \<in> set xs \<Longrightarrow> (0::real) \<le> f x) \<Longrightarrow> 0 \<le> sum_list (map f xs)"
  by (rule sum_list_nonneg) auto

lemma objective_nonneg:
  assumes "list_all (nonnegative_cost (graph S)) (costs S)"
  shows "0 \<le> objective S sel"
proof -
  have c: "nonnegative_cost (graph S) c" if "c \<in> set (costs S)" for c
    using assms that by (simp add: list_all_iff)
  have "0 \<le> sum_list (map (\<lambda>c. edge_cost (graph S) c e) (costs S))" for e
    by (rule sum_list_map_nonneg) (rule edge_cost_nonneg, rule c)
  then have e: "0 \<le> sum_list (map (\<lambda>e. sum_list (map (\<lambda>c. edge_cost (graph S) c e) (costs S)))
                        (selected_edges sel))"
    by (rule sum_list_map_nonneg)
  have "0 \<le> sum_list (map (\<lambda>c. appear_cost (graph S) c n) (costs S))" for n
    by (rule sum_list_map_nonneg) (rule appear_cost_nonneg, rule c)
  then have a: "0 \<le> sum_list (map (\<lambda>n. sum_list (map (\<lambda>c. appear_cost (graph S) c n) (costs S)))
                        (filter (\<lambda>n. parents_in sel n = 0) (selected_nodes sel)))"
    by (rule sum_list_map_nonneg)
  have "0 \<le> sum_list (map split_cost (costs S))"
    by (rule sum_list_map_nonneg) (rule split_cost_nonneg, rule c)
  then have s: "0 \<le> sum_list (map (\<lambda>n. sum_list (map split_cost (costs S)))
                        (filter (\<lambda>n. 2 \<le> children_in sel n) (selected_nodes sel)))"
    by (rule sum_list_map_nonneg)
  from e a s show ?thesis unfolding objective_def by linarith
qed

lemma nothing_selected_objective: "objective S nothing_selected = 0"
  by (simp add: objective_def nothing_selected_def)

lemma nil_in_subseqs: "[] \<in> set (subseqs xs)"
  by (induction xs) (auto simp: Let_def)

lemma nothing_selected_candidate: "nothing_selected \<in> set (all_selections G)"
  by (simp add: all_selections_iff nothing_selected_def nil_in_subseqs)

lemma nothing_selected_feasible: "feasible S nothing_selected"
proof -
  have "satisfies nothing_selected c" for c
    by (cases c) (simp_all add: satisfies_def nothing_selected_def)
  then show ?thesis by (simp add: feasible_def nothing_selected_def list_all_iff)
qed

lemma nothing_selected_subgraph: "selected_subgraph G nothing_selected = DiGraph"
  by (simp add: selected_subgraph_def nothing_selected_def DiGraph_def)

lemma subgraph_empty_iff:
  assumes "sel \<in> set (all_selections G)"
  shows "selected_subgraph G sel = DiGraph \<longleftrightarrow> sel = nothing_selected"
proof
  assume "sel = nothing_selected"
  then show "selected_subgraph G sel = DiGraph" by (simp add: nothing_selected_subgraph)
next
  assume e: "selected_subgraph G sel = DiGraph"
  from assms have ns: "set (selected_nodes sel) \<subseteq> set (map fst (nodes G))"
    and es: "set (selected_edges sel) \<subseteq> set (map fst (edges G))"
    using subseqs_subset[of "selected_nodes sel" "map fst (nodes G)"]
      subseqs_subset[of "selected_edges sel" "map fst (edges G)"]
    by (simp_all add: all_selections_iff)
  from e have fn: "filter (\<lambda>item. fst item \<in> set (selected_nodes sel)) (nodes G) = []"
    and fe: "filter (\<lambda>item. fst item \<in> set (selected_edges sel)) (edges G) = []"
    by (simp_all add: selected_subgraph_def DiGraph_def)
  have "selected_nodes sel = []"
  proof (rule ccontr)
    assume "selected_nodes sel \<noteq> []"
    then obtain x where x: "x \<in> set (selected_nodes sel)"
      by (cases "selected_nodes sel") auto
    with ns obtain item where "item \<in> set (nodes G)" "fst item = x" by auto
    with x fn show False by (auto simp: filter_empty_conv)
  qed
  moreover have "selected_edges sel = []"
  proof (rule ccontr)
    assume "selected_edges sel \<noteq> []"
    then obtain x where x: "x \<in> set (selected_edges sel)"
      by (cases "selected_edges sel") auto
    with es obtain item where "item \<in> set (edges G)" "fst item = x" by auto
    with x fe show False by (auto simp: filter_empty_conv)
  qed
  ultimately show "sel = nothing_selected" by (cases sel) (simp add: nothing_selected_def)
qed

lemma nonnegative_solutions:
  assumes "list_all (nonnegative_cost (graph S)) (costs S)"
  shows "set (solutions S)
           = {sel \<in> set (all_selections (graph S)). feasible S sel \<and> objective S sel = 0}"
proof (intro equalityI subsetI)
  fix sel assume s: "sel \<in> set (solutions S)"
  have "objective S sel \<le> objective S nothing_selected"
    using s nothing_selected_candidate nothing_selected_feasible by (rule solutions_optimal)
  with objective_nonneg[OF assms, of sel] have "objective S sel = 0"
    by (simp add: nothing_selected_objective)
  with solutions_feasible[OF s]
  show "sel \<in> {sel \<in> set (all_selections (graph S)). feasible S sel \<and> objective S sel = 0}"
    by simp
next
  fix sel assume "sel \<in> {sel \<in> set (all_selections (graph S)). feasible S sel \<and> objective S sel = 0}"
  then have c: "sel \<in> set (all_selections (graph S))" and f: "feasible S sel"
    and z: "objective S sel = 0" by simp_all
  show "sel \<in> set (solutions S)"
  proof (rule solutions_intro[OF c f])
    show "objective S sel \<le> objective S other" for other
      using objective_nonneg[OF assms, of other] z by simp
  qed
qed

text \<open>
  Claim C6, as amended. Whenever a solver whose costs are all non-negative-valued returns its
  solution graphs: the selection of nothing has the objective 0 and no selection has a negative
  objective, so the optimal selections are exactly the feasible selections with the
  objective 0, and the empty graph (0 nodes and 0 edges) is one of the optimal solution graphs.
  Every optimal solution graph is the empty graph if and only if every feasible selection other
  than the selection of nothing has a strictly positive objective.
\<close>

theorem nonnegative_costs_empty_graph_is_optimal:
  assumes "list_all (nonnegative_cost (graph S)) (costs S)"
    and "solve S = Inr sols"
  shows "DiGraph \<in> set sols
         \<and> nodes DiGraph = [] \<and> edges DiGraph = []
         \<and> objective S nothing_selected = 0
         \<and> (\<forall>sel. 0 \<le> objective S sel)
         \<and> sols = map (selected_subgraph (graph S)) (solutions S)
         \<and> set (solutions S)
             = {sel \<in> set (all_selections (graph S)). feasible S sel \<and> objective S sel = 0}
         \<and> ((\<forall>g \<in> set sols. g = DiGraph)
              \<longleftrightarrow> (\<forall>sel \<in> set (all_selections (graph S)).
                     feasible S sel \<and> sel \<noteq> nothing_selected \<longrightarrow> 0 < objective S sel))"
proof -
  have nonneg: "0 \<le> objective S sel" for sel
    using assms(1) by (rule objective_nonneg)
  have opt: "set (solutions S)
               = {sel \<in> set (all_selections (graph S)). feasible S sel \<and> objective S sel = 0}"
    using assms(1) by (rule nonnegative_solutions)
  have run: "sols = map (selected_subgraph (graph S)) (solutions S)"
    using assms(2) by (simp add: solve_def split: if_splits)
  have "nothing_selected \<in> set (solutions S)"
    unfolding opt
    using nothing_selected_candidate nothing_selected_feasible nothing_selected_objective
    by simp
  then have "selected_subgraph (graph S) nothing_selected \<in> set sols"
    unfolding run by simp
  then have mem: "DiGraph \<in> set sols" by (simp only: nothing_selected_subgraph)
  have only: "(\<forall>g \<in> set sols. g = DiGraph)
              \<longleftrightarrow> (\<forall>sel \<in> set (all_selections (graph S)).
                     feasible S sel \<and> sel \<noteq> nothing_selected \<longrightarrow> 0 < objective S sel)"
  proof
    assume all: "\<forall>g \<in> set sols. g = DiGraph"
    show "\<forall>sel \<in> set (all_selections (graph S)).
             feasible S sel \<and> sel \<noteq> nothing_selected \<longrightarrow> 0 < objective S sel"
    proof (intro ballI impI)
      fix sel assume c: "sel \<in> set (all_selections (graph S))"
        and f: "feasible S sel \<and> sel \<noteq> nothing_selected"
      show "0 < objective S sel"
      proof (rule ccontr)
        assume "\<not> 0 < objective S sel"
        with nonneg[of sel] have "objective S sel = 0" by simp
        with c f have "sel \<in> set (solutions S)" unfolding opt by simp
        then have "selected_subgraph (graph S) sel \<in> set sols" unfolding run by simp
        with all have "selected_subgraph (graph S) sel = DiGraph" by blast
        with subgraph_empty_iff[OF c] f show False by simp
      qed
    qed
  next
    assume pos: "\<forall>sel \<in> set (all_selections (graph S)).
                   feasible S sel \<and> sel \<noteq> nothing_selected \<longrightarrow> 0 < objective S sel"
    show "\<forall>g \<in> set sols. g = DiGraph"
    proof
      fix g assume "g \<in> set sols"
      then obtain sel where s: "sel \<in> set (solutions S)"
        and g: "g = selected_subgraph (graph S) sel"
        unfolding run by auto
      from s have c: "sel \<in> set (all_selections (graph S))" and f: "feasible S sel"
        and z: "objective S sel = 0" unfolding opt by simp_all
      have "sel = nothing_selected"
      proof (rule ccontr)
        assume "sel \<noteq> nothing_selected"
        with pos c f have "0 < objective S sel" by blast
        with z show False by simp
      qed
      then show "g = DiGraph" using g by (simp add: nothing_selected_subgraph)
    qed
  qed
  have "nodes DiGraph = [] \<and> edges DiGraph = []" by (simp add: DiGraph_def)
  then show ?thesis using mem nonneg run opt only nothing_selected_objective by blast
qed

lemma costly_solver_nonnegative:
  "list_all (nonnegative_cost (graph costly_solver)) (costs costly_solver)"
  by (simp add: costly_solver_def nonnegative_cost_def)

lemma costly_solver_run: "solve costly_solver = Inr [DiGraph]"
proof -
  have sels: "all_selections pair_candidates =
     [\<lparr>selected_nodes = [1, 2], selected_edges = [(1, 2)]\<rparr>,
      \<lparr>selected_nodes = [1, 2], selected_edges = []\<rparr>,
      \<lparr>selected_nodes = [1], selected_edges = [(1, 2)]\<rparr>,
      \<lparr>selected_nodes = [1], selected_edges = []\<rparr>,
      \<lparr>selected_nodes = [2], selected_edges = [(1, 2)]\<rparr>,
      \<lparr>selected_nodes = [2], selected_edges = []\<rparr>,
      \<lparr>selected_nodes = [], selected_edges = [(1, 2)]\<rparr>,
      \<lparr>selected_nodes = [], selected_edges = []\<rparr>]"
    by (simp add: all_selections_def pair_candidates_def)
  have ec: "edge_cost pair_candidates (EdgeDistance 1 20) (1, 2) = 20"
    by (simp add: edge_cost_def pair_candidates_def position_def no_node_attrs_def
          distance_def linalg_norm_def)
  have g: "graph costly_solver = pair_candidates" by (simp add: costly_solver_def)
  have sol: "solutions costly_solver = [\<lparr>selected_nodes = [], selected_edges = []\<rparr>]"
    by (simp add: solutions_def costly_solver_def sels feasible_def satisfies_def parents_in_def
          children_in_def objective_def ec)
  have ready: "list_all (cost_ready (graph costly_solver)) (costs costly_solver)"
    by (simp add: costly_solver_def cost_ready_def pair_candidates_def position_def
          no_node_attrs_def)
  show ?thesis
    unfolding solve_def sol using ready
    by (simp add: selected_subgraph_def DiGraph_def)
qed

theorem nonnegative_costs_empty_graph_is_optimal_witness:
  "list_all (nonnegative_cost (graph costly_solver)) (costs costly_solver)
   \<and> solve costly_solver = Inr [DiGraph]
   \<and> DiGraph \<in> set [DiGraph]
   \<and> objective costly_solver nothing_selected = 0
   \<and> 0 \<le> objective costly_solver \<lparr>selected_nodes = [1, 2], selected_edges = [(1, 2)]\<rparr>"
  using nonnegative_costs_empty_graph_is_optimal[OF costly_solver_nonnegative costly_solver_run]
    costly_solver_nonnegative costly_solver_run
  by blast

text \<open>
  Claim C6, as stated (the solver always returns the empty graph), fails where another
  selection costs nothing as well: with the single cost \<open>Appear 0 False\<close>, which is not
  negative, and a single detection in frame 0, selecting the detection has the objective 0
  too, and the graph with that one node is an optimal solution graph beside the empty one.
\<close>

theorem nonnegative_costs_nonempty_optimum:
  "list_all (nonnegative_cost (graph tie_solver)) (costs tie_solver)
   \<and> solve tie_solver = Inr [tie_candidate, DiGraph]
   \<and> objective tie_solver \<lparr>selected_nodes = [1], selected_edges = []\<rparr> = 0
   \<and> length (nodes tie_candidate) = 1"
proof -
  have n: "list_all (nonnegative_cost (graph tie_solver)) (costs tie_solver)"
    by (simp add: tie_solver_def nonnegative_cost_def)
  have sels: "all_selections tie_candidate =
     [\<lparr>selected_nodes = [1], selected_edges = []\<rparr>, \<lparr>selected_nodes = [], selected_edges = []\<rparr>]"
    by (simp add: all_selections_def tie_candidate_def)
  have ob: "objective tie_solver \<lparr>selected_nodes = [1], selected_edges = []\<rparr> = 0"
    by (simp add: objective_def tie_solver_def parents_in_def children_in_def)
  have sol: "solutions tie_solver =
     [\<lparr>selected_nodes = [1], selected_edges = []\<rparr>, \<lparr>selected_nodes = [], selected_edges = []\<rparr>]"
    by (simp add: solutions_def tie_solver_def sels feasible_def satisfies_def parents_in_def
          children_in_def objective_def)
  have g: "graph tie_solver = tie_candidate" by (simp add: tie_solver_def)
  have ready: "list_all (cost_ready (graph tie_solver)) (costs tie_solver)"
    by (simp add: tie_solver_def cost_ready_def)
  have "solve tie_solver = Inr [tie_candidate, DiGraph]"
    unfolding solve_def sol g using ready
    by (simp add: g) (simp add: selected_subgraph_def tie_candidate_def DiGraph_def)
  moreover have "length (nodes tie_candidate) = 1" by (simp add: tie_candidate_def)
  ultimately show ?thesis using n ob by blast
qed

end
